theory Spec2Isabelle
  imports Complex_Main
begin

section \<open>JavaScript strings\<close>

text \<open>
  Strings are lists of code units below 256 (Latin-1). The helpers below are the
  string methods and regular-expression classes the sources use, restricted to that range:
  \<^verbatim>\<open>String.prototype.toLowerCase\<close>, \<^verbatim>\<open>String.prototype.includes\<close>, the class
  \<^verbatim>\<open>\s\<close>, and the line terminators that \<^verbatim>\<open>.\<close> refuses to match.
\<close>

definition lowerChar :: "char \<Rightarrow> char" where
  "lowerChar c =
     (let n = (of_char c :: nat)
      in if (65 \<le> n \<and> n \<le> 90) \<or> (192 \<le> n \<and> n \<le> 222 \<and> n \<noteq> 215)
         then char_of (n + 32) else c)"

definition toLowerCase :: "string \<Rightarrow> string" where
  "toLowerCase s = map lowerChar s"

definition isSpace :: "char \<Rightarrow> bool" where
  "isSpace c = ((of_char c :: nat) \<in> {9, 10, 11, 12, 13, 32, 160})"

definition isLineTerminator :: "char \<Rightarrow> bool" where
  "isLineTerminator c = ((of_char c :: nat) \<in> {10, 13})"

primrec startsWith :: "string \<Rightarrow> string \<Rightarrow> bool" where
  "startsWith s [] = True"
| "startsWith s (p # ps) = (case s of [] \<Rightarrow> False | c # cs \<Rightarrow> c = p \<and> startsWith cs ps)"

primrec str_includes :: "string \<Rightarrow> string \<Rightarrow> bool" where
  "str_includes [] sub = (sub = [])"
| "str_includes (c # cs) sub = (startsWith (c # cs) sub \<or> str_includes cs sub)"

text \<open>\<^verbatim>\<open>Array.prototype.join\<close> on an array of strings.\<close>

fun joinWith :: "string \<Rightarrow> string list \<Rightarrow> string" where
  "joinWith sep [] = []"
| "joinWith sep [l] = l"
| "joinWith sep (l # m # ls) = l @ sep @ joinWith sep (m # ls)"

text \<open>The idiom \<^verbatim>\<open>x || d\<close> on a number: zero is falsy and gives the default.\<close>

definition orElse :: "int \<Rightarrow> int \<Rightarrow> int" where
  "orElse x d = (if x = 0 then d else x)"

section \<open>Data model\<close>

text \<open>
  The objects kept in the chat metadata under the key \<^verbatim>\<open>openvault\<close>. An event is what
  \<^verbatim>\<open>parseExtractionResult\<close> produces; the two impact objects are kept as their
  \<^verbatim>\<open>Object.entries\<close>, in order. \<^verbatim>\<open>event_type\<close> and \<^verbatim>\<open>summary\<close> are not normalised by
  the parser and may be undefined.
\<close>

record memory_event =
  ev_id :: string
  event_type :: "string option"
  summary :: "string option"
  characters_involved :: "string list"
  witnesses :: "string list"
  location :: string
  is_secret :: bool
  emotional_impact :: "(string \<times> string) list"
  relationship_impact :: "(string \<times> string) list"
  message_ids :: "nat list"
  created_at :: int

record character_state =
  cs_name :: string
  current_emotion :: string
  emotion_intensity :: int
  known_events :: "string list"
  last_updated :: "int option"

record history_entry =
  event_id :: string
  impact :: string
  timestamp :: int

record relationship =
  character_a :: string
  character_b :: string
  trust_level :: int
  tension_level :: int
  relationship_type :: string
  history :: "history_entry list"

record vault_data =
  memories :: "memory_event list"
  character_states :: "string \<rightharpoonup> character_state"
  relationships :: "string \<rightharpoonup> relationship"
  last_processed_message_id :: int
  last_extraction_batch :: "string option"
  extracted_batches :: "nat list option"

text \<open>
  The store always exists: the \<^verbatim>\<open>getOpenVaultData\<close> of \<^verbatim>\<open>index.js\<close> creates it on first use,
  with the four keys \<^verbatim>\<open>memories\<close>, \<^verbatim>\<open>character_states\<close>, \<^verbatim>\<open>relationships\<close> and
  \<^verbatim>\<open>last_processed_message_id\<close>. It creates neither \<^verbatim>\<open>last_extraction_batch\<close> nor
  \<^verbatim>\<open>extracted_batches\<close>, so these two may be absent (\<open>None\<close>). Objects with string keys are
  maps; no property below depends on the order of their keys.
\<close>

section \<open>State propagation: relationships\<close>

text \<open>
  \<open>now\<close> is the value of \<^verbatim>\<open>Date.now()\<close> during the call. Impact descriptions are strings,
  as the prompt asks for.

  The relation key is matched with \<^verbatim>\<open>/^(.+?)\s*->\s*(.+)$/\<close>. The first group is lazy,
  so the matcher extends it one character at a time and takes the first length at which
  the rest of the pattern matches; it cannot cross a line terminator. After the arrow the
  greedy \<^verbatim>\<open>\s*\<close> keeps all the white space it can, giving one character back only when
  nothing else is left for the second group.
\<close>

definition matchSecond :: "string \<Rightarrow> string option" where
  "matchSecond r =
     (let t = dropWhile isSpace r
      in if t \<noteq> [] then (if list_ex isLineTerminator t then None else Some t)
         else if r \<noteq> [] \<and> \<not> isLineTerminator (last r) then Some [last r]
         else None)"

definition matchArrow :: "string \<Rightarrow> string option" where
  "matchArrow r =
     (case dropWhile isSpace r of
        c1 # c2 # rest \<Rightarrow> if c1 = CHR ''-'' \<and> c2 = CHR ''>'' then matchSecond rest else None
      | _ \<Rightarrow> None)"

fun matchFrom :: "string \<Rightarrow> string \<Rightarrow> (string \<times> string) option" where
  "matchFrom pre [] = None"
| "matchFrom pre (c # cs) =
     (if isLineTerminator c then None
      else (case matchArrow cs of
              Some b \<Rightarrow> Some (pre @ [c], b)
            | None \<Rightarrow> matchFrom (pre @ [c]) cs))"

definition matchRelationKey :: "string \<Rightarrow> (string \<times> string) option" where
  "matchRelationKey relationKey = matchFrom [] relationKey"

definition newRelationship :: "string \<Rightarrow> string \<Rightarrow> relationship" where
  "newRelationship charA charB =
     \<lparr>character_a = charA, character_b = charB, trust_level = 5, tension_level = 0,
      relationship_type = ''acquaintance'', history = []\<rparr>"

definition updateTrust :: "string \<Rightarrow> relationship \<Rightarrow> relationship" where
  "updateTrust impactLower r =
     (if str_includes impactLower ''trust'' \<and> str_includes impactLower ''increas''
      then r\<lparr>trust_level := min 10 (trust_level r + 1)\<rparr>
      else if str_includes impactLower ''trust'' \<and> str_includes impactLower ''decreas''
      then r\<lparr>trust_level := max 0 (trust_level r - 1)\<rparr>
      else r)"

definition updateTension :: "string \<Rightarrow> relationship \<Rightarrow> relationship" where
  "updateTension impactLower r =
     (if str_includes impactLower ''tension'' \<and> str_includes impactLower ''increas''
      then r\<lparr>tension_level := min 10 (tension_level r + 1)\<rparr>
      else if str_includes impactLower ''tension'' \<and> str_includes impactLower ''decreas''
      then r\<lparr>tension_level := max 0 (tension_level r - 1)\<rparr>
      else r)"

definition applyImpact :: "int \<Rightarrow> string \<Rightarrow> string \<Rightarrow> relationship \<Rightarrow> relationship" where
  "applyImpact now eid imp r =
     (let impactLower = toLowerCase imp;
          r1 = updateTrust impactLower r;
          r2 = updateTension impactLower r1
      in r2\<lparr>history := history r2 @ [\<lparr>event_id = eid, impact = imp, timestamp = now\<rparr>]\<rparr>)"

text \<open>One iteration of the inner loop: one entry of an event's \<^verbatim>\<open>relationship_impact\<close>.\<close>

definition relationStep ::
  "int \<Rightarrow> string \<Rightarrow> (string \<rightharpoonup> relationship) \<Rightarrow> string \<times> string \<Rightarrow> (string \<rightharpoonup> relationship)" where
  "relationStep now eid rels entry =
     (case matchRelationKey (fst entry) of
        None \<Rightarrow> rels
      | Some (charA, charB) \<Rightarrow>
          (let key = charA @ ''<->'' @ charB;
               rel = (case rels key of None \<Rightarrow> newRelationship charA charB | Some r \<Rightarrow> r)
           in rels(key \<mapsto> applyImpact now eid (snd entry) rel)))"

definition relationsOfEvent ::
  "int \<Rightarrow> (string \<rightharpoonup> relationship) \<Rightarrow> memory_event \<Rightarrow> (string \<rightharpoonup> relationship)" where
  "relationsOfEvent now rels ev = foldl (relationStep now (ev_id ev)) rels (relationship_impact ev)"

definition updateRelationshipsFromEvents :: "int \<Rightarrow> memory_event list \<Rightarrow> vault_data \<Rightarrow> vault_data" where
  "updateRelationshipsFromEvents now events data =
     data\<lparr>relationships := foldl (relationsOfEvent now) (relationships data) events\<rparr>"

definition levelsInRange :: "relationship \<Rightarrow> bool" where
  "levelsInRange r =
     (0 \<le> trust_level r \<and> trust_level r \<le> 10 \<and> 0 \<le> tension_level r \<and> tension_level r \<le> 10)"

section \<open>Retrieval: point-of-view filter\<close>

text \<open>
  The filter of \<^verbatim>\<open>retrieveAndInjectContext\<close>; \<^verbatim>\<open>updatePersistentInjection\<close> repeats the same
  statements. \<^verbatim>\<open>knownEventIds\<close> is the viewing character's \<^verbatim>\<open>known_events\<close>, or the empty
  list when the character has no state.
\<close>

definition knownEventIds :: "vault_data \<Rightarrow> string \<Rightarrow> string list" where
  "knownEventIds data characterName =
     (case character_states data characterName of None \<Rightarrow> [] | Some cs \<Rightarrow> known_events cs)"

definition listedIn :: "string \<Rightarrow> string list \<Rightarrow> bool" where
  "listedIn charNameLower names = list_ex (\<lambda>w. toLowerCase w = charNameLower) names"

definition povAccepts :: "string \<Rightarrow> string list \<Rightarrow> memory_event \<Rightarrow> bool" where
  "povAccepts charNameLower known m =
     (if listedIn charNameLower (witnesses m) then True
      else if \<not> is_secret m \<and> listedIn charNameLower (characters_involved m) then True
      else if ev_id m \<in> set known then True
      else False)"

definition accessibleMemories :: "vault_data \<Rightarrow> string \<Rightarrow> memory_event list" where
  "accessibleMemories data characterName =
     filter (povAccepts (toLowerCase characterName) (knownEventIds data characterName)) (memories data)"

definition memoriesToUse :: "vault_data \<Rightarrow> string \<Rightarrow> memory_event list" where
  "memoriesToUse data characterName =
     (let acc = accessibleMemories data characterName
      in if length acc = 0 \<and> length (memories data) > 0 then memories data else acc)"

section \<open>Retrieval: relevance selection\<close>

text \<open>
  \<^verbatim>\<open>String.prototype.split(/\s+/)\<close>: the pieces between maximal runs of white space, with
  an empty piece before a leading and after a trailing run.
\<close>

fun splitAcc :: "string \<Rightarrow> bool \<Rightarrow> string \<Rightarrow> string list" where
  "splitAcc cur inSep [] = [cur]"
| "splitAcc cur inSep (c # cs) =
     (if isSpace c
      then (if inSep then splitAcc cur True cs else cur # splitAcc [] True cs)
      else splitAcc (cur @ [c]) False cs)"

definition splitWhitespace :: "string \<Rightarrow> string list" where
  "splitWhitespace s = splitAcc [] False s"

text \<open>
  Scores are JavaScript numbers; they are modelled as exact reals, leaving the rounding
  of IEEE doubles out. \<open>now\<close> is the value of \<^verbatim>\<open>Date.now()\<close>.
\<close>

definition involvementStep :: "memory_event \<Rightarrow> real \<Rightarrow> string \<Rightarrow> real" where
  "involvementStep memory score char =
     (let s1 = (if char \<in> set (characters_involved memory) then score + 5 else score)
      in if char \<in> set (witnesses memory) then s1 + 3 else s1)"

definition keywordStep :: "string \<Rightarrow> real \<Rightarrow> string \<Rightarrow> real" where
  "keywordStep summaryLower score word =
     (if str_includes summaryLower word then score + 1 else score)"

definition contextWords :: "string \<Rightarrow> string list" where
  "contextWords recentContext =
     filter (\<lambda>w. length w > 3) (splitWhitespace (toLowerCase recentContext))"

definition scoreMemory :: "int \<Rightarrow> string \<Rightarrow> string list \<Rightarrow> memory_event \<Rightarrow> real" where
  "scoreMemory now recentContext activeCharacters memory =
     (let age = now - created_at memory;
          ageHours = real_of_int age / (1000 * 60 * 60);
          s1 = 0 + max 0 (10 - ageHours);
          s2 = foldl (involvementStep memory) s1 activeCharacters;
          summaryLower = (case summary memory of None \<Rightarrow> [] | Some s \<Rightarrow> toLowerCase s);
          s3 = foldl (keywordStep summaryLower) s2 (contextWords recentContext);
          s4 = (if event_type memory = Some ''revelation'' then s3 + 3 else s3);
          s5 = (if event_type memory = Some ''relationship_change'' then s4 + 2 else s4)
      in s5)"

definition selectRelevantMemories ::
  "int \<Rightarrow> memory_event list \<Rightarrow> string \<Rightarrow> string list \<Rightarrow> nat \<Rightarrow> memory_event list" where
  "selectRelevantMemories now mems recentContext activeCharacters limit =
     (let scored = map (\<lambda>memory. (memory, scoreMemory now recentContext activeCharacters memory)) mems;
          sorted = sort_key (\<lambda>p. - snd p) scored
      in map fst (take limit sorted))"

text \<open>
  The score as the specification words it: the keyword term counts each distinct word of
  the context once.
\<close>

definition specScore :: "int \<Rightarrow> string \<Rightarrow> string list \<Rightarrow> memory_event \<Rightarrow> real" where
  "specScore now recentContext activeCharacters memory =
     max 0 (10 - real_of_int (now - created_at memory) / 3600000)
     + 5 * real (length (filter (\<lambda>c. c \<in> set (characters_involved memory)) activeCharacters))
     + 3 * real (length (filter (\<lambda>c. c \<in> set (witnesses memory)) activeCharacters))
     + real (length (filter (str_includes (case summary memory of None \<Rightarrow> [] | Some s \<Rightarrow> toLowerCase s))
                       (remdups (contextWords recentContext))))
     + (if event_type memory = Some ''revelation'' then 3 else 0)
     + (if event_type memory = Some ''relationship_change'' then 2 else 0)"

section \<open>Retrieval: context formatting\<close>

record rel_context =
  rc_character :: string
  rc_trust :: int
  rc_tension :: int
  rc_type :: string

definition joinLines :: "string list \<Rightarrow> string" where
  "joinLines ls = joinWith [CHR 0x0A] ls"

definition relationshipLine :: "rel_context \<Rightarrow> string" where
  "relationshipLine rel =
     (let trustDesc = (if rc_trust rel \<ge> 7 then ''high trust''
                       else if rc_trust rel \<le> 3 then ''low trust'' else ''moderate trust'');
          tensionDesc = (if rc_tension rel \<ge> 7 then ''high tension''
                         else if rc_tension rel \<ge> 4 then ''some tension'' else [])
      in ''- '' @ rc_character rel @ '': ''
         @ (if rc_type rel \<noteq> [] then rc_type rel else ''acquaintance'')
         @ '' ('' @ trustDesc @ (if tensionDesc \<noteq> [] then '', '' @ tensionDesc else []) @ '')'')"

definition memoryLine :: "memory_event \<Rightarrow> string" where
  "memoryLine memory =
     ''- '' @ (if is_secret memory then ''[Secret] '' else [])
     @ (case summary memory of None \<Rightarrow> ''undefined'' | Some s \<Rightarrow> s)"

definition contextLines :: "memory_event list \<Rightarrow> rel_context list \<Rightarrow> string \<Rightarrow> string \<Rightarrow> string list" where
  "contextLines mems rels emotionalState characterName =
     [''['' @ characterName @ [CHR 0x27] @ ''s Memory & State]'', []]
     @ (if emotionalState \<noteq> [] \<and> emotionalState \<noteq> ''neutral''
        then [''Current emotional state: '' @ emotionalState, []] else [])
     @ (if length rels > 0
        then [''Relationships with present characters:''] @ map relationshipLine rels @ [[]] else [])
     @ (if length mems > 0 then [''Relevant memories:''] @ map memoryLine mems else [])
     @ [''[End '' @ characterName @ [CHR 0x27] @ ''s Memory]'']"

definition memoryTokens :: "memory_event \<Rightarrow> real" where
  "memoryTokens memory = real (case summary memory of None \<Rightarrow> 0 | Some s \<Rightarrow> length s) / 4 + 5"

fun truncateMemories :: "real \<Rightarrow> real \<Rightarrow> memory_event list \<Rightarrow> memory_event list" where
  "truncateMemories available currentTokens [] = []"
| "truncateMemories available currentTokens (memory # rest) =
     (if currentTokens + memoryTokens memory \<le> available
      then memory # truncateMemories available (currentTokens + memoryTokens memory) rest
      else [])"

definition estimatedTokens :: "memory_event list \<Rightarrow> rel_context list \<Rightarrow> string \<Rightarrow> string \<Rightarrow> real" where
  "estimatedTokens mems rels emotionalState characterName =
     real (length (joinLines (contextLines mems rels emotionalState characterName))) / 4"

definition truncatedMemories ::
  "memory_event list \<Rightarrow> rel_context list \<Rightarrow> string \<Rightarrow> string \<Rightarrow> real \<Rightarrow> memory_event list" where
  "truncatedMemories mems rels emotionalState characterName tokenBudget =
     (let lines = contextLines mems rels emotionalState characterName;
          overhead = real (length (joinLines (take 5 lines)) + length (joinLines [last lines])) / 4;
          availableForMemories = tokenBudget - overhead
      in truncateMemories availableForMemories 0 mems)"

text \<open>
  The formatter calls itself with the shortened list and twice the budget. Nothing in the
  source bounds the recursion, so the model is a partial function: \<open>None\<close> stands for a
  call that never returns.
\<close>

partial_function (option) formatContextForInjection ::
  "memory_event list \<Rightarrow> rel_context list \<Rightarrow> string \<Rightarrow> string \<Rightarrow> real \<Rightarrow> string option" where
  "formatContextForInjection mems rels emotionalState characterName tokenBudget =
     (if estimatedTokens mems rels emotionalState characterName > tokenBudget
      then formatContextForInjection
             (truncatedMemories mems rels emotionalState characterName tokenBudget)
             rels emotionalState characterName (tokenBudget * 2)
      else Some (joinLines (contextLines mems rels emotionalState characterName)))"

text \<open>
  The same function with a bound on the number of invocations: \<open>formatWithin n\<close> gives up
  with \<open>None\<close> when more than \<open>n\<close> invocations would be needed.
\<close>

fun formatWithin ::
  "nat \<Rightarrow> memory_event list \<Rightarrow> rel_context list \<Rightarrow> string \<Rightarrow> string \<Rightarrow> real \<Rightarrow> string option" where
  "formatWithin 0 mems rels emotionalState characterName tokenBudget = None"
| "formatWithin (Suc n) mems rels emotionalState characterName tokenBudget =
     (if estimatedTokens mems rels emotionalState characterName > tokenBudget
      then formatWithin n
             (truncatedMemories mems rels emotionalState characterName tokenBudget)
             rels emotionalState characterName (tokenBudget * 2)
      else Some (joinLines (contextLines mems rels emotionalState characterName)))"

section \<open>State propagation: character states\<close>

definition newCharacterState :: "string \<Rightarrow> character_state" where
  "newCharacterState charName =
     \<lparr>cs_name = charName, current_emotion = ''neutral'', emotion_intensity = 5,
      known_events = [], last_updated = None\<rparr>"

definition emotionStep ::
  "int \<Rightarrow> (string \<rightharpoonup> character_state) \<Rightarrow> string \<times> string \<Rightarrow> (string \<rightharpoonup> character_state)" where
  "emotionStep now states entry =
     (let charName = fst entry;
          st = (case states charName of None \<Rightarrow> newCharacterState charName | Some s \<Rightarrow> s)
      in states(charName \<mapsto> st\<lparr>current_emotion := snd entry, last_updated := Some now\<rparr>))"

definition witnessStep ::
  "string \<Rightarrow> (string \<rightharpoonup> character_state) \<Rightarrow> string \<Rightarrow> (string \<rightharpoonup> character_state)" where
  "witnessStep eid states witness =
     (let st = (case states witness of None \<Rightarrow> newCharacterState witness | Some s \<Rightarrow> s)
      in states(witness \<mapsto>
           (if eid \<in> set (known_events st) then st
            else st\<lparr>known_events := known_events st @ [eid]\<rparr>)))"

definition statesOfEvent ::
  "int \<Rightarrow> (string \<rightharpoonup> character_state) \<Rightarrow> memory_event \<Rightarrow> (string \<rightharpoonup> character_state)" where
  "statesOfEvent now states ev =
     foldl (witnessStep (ev_id ev)) (foldl (emotionStep now) states (emotional_impact ev)) (witnesses ev)"

definition updateCharacterStatesFromEvents :: "int \<Rightarrow> memory_event list \<Rightarrow> vault_data \<Rightarrow> vault_data" where
  "updateCharacterStatesFromEvents now events data =
     data\<lparr>character_states := foldl (statesOfEvent now) (character_states data) events\<rparr>"

section \<open>Extraction cycle\<close>

record message =
  is_system :: bool
  is_user :: bool
  name :: string
  mes :: string

record chat_context =
  chat :: "message list"
  name1 :: string
  name2 :: string

record settings =
  enabled :: bool
  messagesPerExtraction :: nat
  extractionProfile :: string
  selectedProfile :: string
  backfillMaxRPM :: int

datatype js_error = Error string

text \<open>
  \<open>parseExtractionResult\<close>, \<open>updateCharacterStatesFromEvents\<close> and
  \<open>updateRelationshipsFromEvents\<close> are the functions of those names in \<^verbatim>\<open>index.js\<close>.

  An element of the array the model answered with, before normalisation: every field may
  be missing.
\<close>

record raw_event =
  raw_id :: "string option"
  raw_event_type :: "string option"
  raw_summary :: "string option"
  raw_characters_involved :: "string list option"
  raw_witnesses :: "string list option"
  raw_location :: "string option"
  raw_is_secret :: "bool option"
  raw_emotional_impact :: "(string \<times> string) list option"
  raw_relationship_impact :: "(string \<times> string) list option"

text \<open>
  What lies outside the extension during one extraction cycle:
  \<^item> \<open>dateNow\<close>, \<open>newBatchId\<close>, \<open>generateId\<close>: the clock and the random identifiers;
  \<^item> \<open>sendRequest profileId text\<close>: \<^verbatim>\<open>ConnectionManagerRequestService.sendRequest\<close> on the
    prompt that \<^verbatim>\<open>buildExtractionPrompt\<close> wraps around the messages text; it throws
    (\<open>Inl\<close>) or answers with the content (\<open>Inr\<close>, empty when there is none);
  \<^item> \<open>parseReasoning\<close>: the host's \<^verbatim>\<open>parseReasoningFromString\<close>, the identity when absent;
  \<^item> \<open>decodeEvents\<close>: the fenced-block match, \<^verbatim>\<open>JSON.parse\<close> and the wrapping of a single
    object in an array; \<open>None\<close> when \<^verbatim>\<open>JSON.parse\<close> throws;
  \<^item> \<open>saveResult\<close>: \<^verbatim>\<open>saveOpenVaultData\<close> resolves (\<open>None\<close>) or rejects.
\<close>

record world =
  dateNow :: int
  newBatchId :: string
  generateId :: "nat \<Rightarrow> string"
  sendRequest :: "string \<Rightarrow> string \<Rightarrow> js_error + string"
  parseReasoning :: "string \<Rightarrow> string"
  decodeEvents :: "string \<Rightarrow> raw_event list option"
  saveResult :: "js_error option"

definition callLLMForExtraction :: "settings \<Rightarrow> world \<Rightarrow> string \<Rightarrow> js_error + string" where
  "callLLMForExtraction settings w prompt =
     (let profileId = (if extractionProfile settings \<noteq> [] then extractionProfile settings
                       else selectedProfile settings)
      in if profileId = []
         then Inl (Error ''No connection profile available for extraction. Please configure a profile in Connection Manager.'')
         else (case sendRequest w profileId prompt of
                 Inl e \<Rightarrow> Inl e
               | Inr content \<Rightarrow>
                   if content = [] then Inl (Error ''Empty response from LLM'')
                   else Inr (parseReasoning w content)))"

definition enrichEvent :: "world \<Rightarrow> (nat \<times> message) list \<Rightarrow> nat \<times> raw_event \<Rightarrow> memory_event" where
  "enrichEvent w messages indexed =
     (let event = snd indexed
      in \<lparr>ev_id = (case raw_id event of None \<Rightarrow> generateId w (fst indexed) | Some i \<Rightarrow> i),
          event_type = raw_event_type event,
          summary = raw_summary event,
          characters_involved = (case raw_characters_involved event of None \<Rightarrow> [] | Some cs \<Rightarrow> cs),
          witnesses = (case raw_witnesses event of
                         Some ws \<Rightarrow> ws
                       | None \<Rightarrow> (case raw_characters_involved event of None \<Rightarrow> [] | Some cs \<Rightarrow> cs)),
          location = (case raw_location event of
                        None \<Rightarrow> ''unknown''
                      | Some l \<Rightarrow> if l = [] then ''unknown'' else l),
          is_secret = (case raw_is_secret event of None \<Rightarrow> False | Some b \<Rightarrow> b),
          emotional_impact = (case raw_emotional_impact event of None \<Rightarrow> [] | Some e \<Rightarrow> e),
          relationship_impact = (case raw_relationship_impact event of None \<Rightarrow> [] | Some r \<Rightarrow> r),
          message_ids = map fst messages,
          created_at = dateNow w\<rparr>)"

definition parseExtractionResult :: "world \<Rightarrow> string \<Rightarrow> (nat \<times> message) list \<Rightarrow> memory_event list" where
  "parseExtractionResult w jsonString messages =
     (case decodeEvents w jsonString of
        None \<Rightarrow> []
      | Some events \<Rightarrow> map (enrichEvent w messages) (enumerate 0 events))"

text \<open>
  The messages of one cycle, each with its index in the chat. An index outside the chat
  gives an object with the id alone; its fields read as undefined, and the template
  prints its text as \<^verbatim>\<open>undefined\<close>.
\<close>

definition undefinedMessage :: message where
  "undefinedMessage = \<lparr>is_system = False, is_user = False, name = [], mes = ''undefined''\<rparr>"

definition messageCount :: "settings \<Rightarrow> nat" where
  "messageCount settings =
     (if messagesPerExtraction settings = 0 then 5 else messagesPerExtraction settings)"

definition selectUnprocessed :: "settings \<Rightarrow> message list \<Rightarrow> vault_data \<Rightarrow> (nat \<times> message) list" where
  "selectUnprocessed settings msgs data =
     (let lastProcessedId = orElse (last_processed_message_id data) (- 1);
          candidates = filter (\<lambda>m. \<not> is_system (snd m) \<and> int (fst m) > lastProcessedId)
                         (enumerate 0 msgs)
      in drop (length candidates - messageCount settings) candidates)"

definition selectMessages ::
  "settings \<Rightarrow> message list \<Rightarrow> nat list option \<Rightarrow> vault_data \<Rightarrow> (nat \<times> message) list" where
  "selectMessages settings msgs messageIds data =
     (case messageIds of
        None \<Rightarrow> selectUnprocessed settings msgs data
      | Some ids \<Rightarrow>
          if length ids > 0
          then filter (\<lambda>m. True)
                 (map (\<lambda>i. (i, if i < length msgs then msgs ! i else undefinedMessage)) ids)
          else selectUnprocessed settings msgs data)"

definition messagesText :: "chat_context \<Rightarrow> (nat \<times> message) list \<Rightarrow> string" where
  "messagesText ctx messagesToExtract =
     joinWith [CHR 0x0A, CHR 0x0A]
       (map (\<lambda>m. ''['' @ (if is_user (snd m) then name1 ctx
                           else if name (snd m) \<noteq> [] then name (snd m) else name2 ctx)
                  @ '']: '' @ mes (snd m))
            messagesToExtract)"

record extraction_summary =
  events_created :: nat
  messages_processed :: nat

text \<open>The statements of the branch taken when the parser returned at least one event.\<close>

definition storeEvents :: "world \<Rightarrow> (nat \<times> message) list \<Rightarrow> memory_event list \<Rightarrow> vault_data \<Rightarrow> vault_data" where
  "storeEvents w messagesToExtract events data =
     (let d1 = data\<lparr>memories := memories data @ events\<rparr>;
          d2 = updateCharacterStatesFromEvents (dateNow w) events d1;
          d3 = updateRelationshipsFromEvents (dateNow w) events d2;
          maxId = Max (set (map (\<lambda>m. int (fst m)) messagesToExtract));
          d4 = d3\<lparr>last_processed_message_id := max (orElse (last_processed_message_id d3) (- 1)) maxId\<rparr>
      in d4\<lparr>last_extraction_batch := Some (newBatchId w)\<rparr>)"

text \<open>
  \<open>extractMemories\<close> works on the store in place, so the model returns the store as the
  call leaves it together with the way the promise settles: rejected with an error
  (\<open>Inl\<close>), resolved with undefined (\<open>Inr None\<close>) or resolved with the summary. The
  catch block reports the error and throws it again. Notifications, the status indicator
  and the refresh of the panels leave the store alone and are left out.
\<close>

definition extractMemories ::
  "settings \<Rightarrow> chat_context \<Rightarrow> world \<Rightarrow> nat list option \<Rightarrow> vault_data
     \<Rightarrow> vault_data \<times> (js_error + extraction_summary option)" where
  "extractMemories settings ctx w messageIds data =
     (if \<not> enabled settings then (data, Inr None)
      else if length (chat ctx) = 0 then (data, Inr None)
      else
        (let messagesToExtract = selectMessages settings (chat ctx) messageIds data
         in if length messagesToExtract = 0 then (data, Inr None)
            else
              (case callLLMForExtraction settings w (messagesText ctx messagesToExtract) of
                 Inl e \<Rightarrow> (data, Inl e)
               | Inr extractedJson \<Rightarrow>
                   (let events = parseExtractionResult w extractedJson messagesToExtract
                    in if length events > 0
                       then (let stored = storeEvents w messagesToExtract events data
                             in (case saveResult w of
                                   Some e \<Rightarrow> (stored, Inl e)
                                 | None \<Rightarrow>
                                     (stored, Inr (Some \<lparr>events_created = length events,
                                        messages_processed = length messagesToExtract\<rparr>))))
                       else (data, Inr (Some \<lparr>events_created = length events,
                               messages_processed = length messagesToExtract\<rparr>))))))"

section \<open>Backfill\<close>

definition alreadyExtractedIds :: "vault_data \<Rightarrow> nat set" where
  "alreadyExtractedIds data = set (concat (map message_ids (memories data)))"

definition allMessageIds :: "chat_context \<Rightarrow> vault_data \<Rightarrow> nat list" where
  "allMessageIds ctx data =
     filter (\<lambda>idx. idx \<notin> alreadyExtractedIds data) [0..<length (chat ctx)]"

text \<open>\<^verbatim>\<open>allMessageIds.slice(0, -messageCount)\<close>, the count being positive.\<close>

definition eligibleIds :: "settings \<Rightarrow> chat_context \<Rightarrow> vault_data \<Rightarrow> nat list" where
  "eligibleIds settings ctx data =
     take (length (allMessageIds ctx data) - messageCount settings) (allMessageIds ctx data)"

definition completeBatches :: "settings \<Rightarrow> chat_context \<Rightarrow> vault_data \<Rightarrow> nat" where
  "completeBatches settings ctx data = length (eligibleIds settings ctx data) div messageCount settings"

definition completeMessageCount :: "settings \<Rightarrow> chat_context \<Rightarrow> vault_data \<Rightarrow> nat" where
  "completeMessageCount settings ctx data = completeBatches settings ctx data * messageCount settings"

definition remainder :: "settings \<Rightarrow> chat_context \<Rightarrow> vault_data \<Rightarrow> nat" where
  "remainder settings ctx data =
     length (eligibleIds settings ctx data) - completeMessageCount settings ctx data"

definition backfillMessages :: "settings \<Rightarrow> chat_context \<Rightarrow> vault_data \<Rightarrow> nat list" where
  "backfillMessages settings ctx data =
     (if remainder settings ctx data > 0
      then take (completeMessageCount settings ctx data) (eligibleIds settings ctx data)
      else eligibleIds settings ctx data)"

definition batchSlice :: "nat \<Rightarrow> nat list \<Rightarrow> nat \<Rightarrow> nat list" where
  "batchSlice count messagesToExtract i = take count (drop (i * count) messagesToExtract)"

text \<open>
  What the loop writes to the log: the line that announces a batch, the line that
  announces the pause after it, and the error the catch block prints.
\<close>

datatype backfill_log = Processing nat | RateLimitWait int | BatchError nat

text \<open>
  \<^verbatim>\<open>Math.ceil(60000 / rpm)\<close> with \<^verbatim>\<open>rpm = settings.backfillMaxRPM || 30\<close>, the setting being
  an integer: the ceiling of a quotient is minus the floor of the negated quotient.
\<close>

definition delayMs :: "settings \<Rightarrow> int" where
  "delayMs settings =
     (let rpm = orElse (backfillMaxRPM settings) 30
      in - ((- 60000) div rpm))"

text \<open>
  The loop over the batch indices, \<open>batchCount\<close> being \<^verbatim>\<open>completeBatches\<close>; \<open>worlds i\<close> is the
  outside world during batch \<open>i\<close>. The store that \<open>extractMemories\<close> reads is the object the
  loop records the batch index in. Everything from the call of \<open>extractMemories\<close> to the
  pause stands in one try block:
  \<^item> a rejected extraction is caught: nothing is added to the total, no index is recorded,
    no pause is made;
  \<^item> after a resolved extraction the events are added to the total first; then
    \<^verbatim>\<open>data[EXTRACTED_BATCHES_KEY].includes(i)\<close> is evaluated without a guard, so on a store
    without that key it throws a TypeError, which the same catch block takes: no index
    is recorded and no pause is made;
  \<^item> otherwise the index is recorded once, and the pause follows unless the batch is the
    last one.
\<close>

fun backfillLoop ::
  "settings \<Rightarrow> chat_context \<Rightarrow> (nat \<Rightarrow> world) \<Rightarrow> nat list \<Rightarrow> nat \<Rightarrow> nat list
     \<Rightarrow> vault_data \<times> nat \<times> backfill_log list \<Rightarrow> vault_data \<times> nat \<times> backfill_log list" where
  "backfillLoop settings ctx worlds messagesToExtract batchCount [] acc = acc"
| "backfillLoop settings ctx worlds messagesToExtract batchCount (i # rest) (data, soFar, lg) =
     (case extractMemories settings ctx (worlds i)
             (Some (batchSlice (messageCount settings) messagesToExtract i)) data of
        (d, Inl e) \<Rightarrow>
          backfillLoop settings ctx worlds messagesToExtract batchCount rest
            (d, soFar, lg @ [Processing i, BatchError i])
      | (d, Inr result) \<Rightarrow>
          (let totalEvents = soFar + (case result of None \<Rightarrow> 0 | Some r \<Rightarrow> events_created r)
           in (case extracted_batches d of
                 None \<Rightarrow>
                   backfillLoop settings ctx worlds messagesToExtract batchCount rest
                     (d, totalEvents, lg @ [Processing i, BatchError i])
               | Some recorded \<Rightarrow>
                   (let d' = (if i \<in> set recorded then d
                              else d\<lparr>extracted_batches := Some (recorded @ [i])\<rparr>);
                        lg' = (if i + 1 < batchCount
                               then lg @ [Processing i, RateLimitWait (delayMs settings)]
                               else lg @ [Processing i])
                    in backfillLoop settings ctx worlds messagesToExtract batchCount rest
                         (d', totalEvents, lg')))))"

text \<open>
  The result is the store after the run, what the closing notification reports (the
  number of events and the number of messages, or nothing when the run returns early)
  and the log of the loop. The progress display is left out.
\<close>

definition extractAllMessages ::
  "settings \<Rightarrow> chat_context \<Rightarrow> (nat \<Rightarrow> world) \<Rightarrow> vault_data
     \<Rightarrow> vault_data \<times> (nat \<times> nat) option \<times> backfill_log list" where
  "extractAllMessages settings ctx worlds data =
     (if length (chat ctx) = 0 then (data, None, [])
      else
        (let messagesToExtract = backfillMessages settings ctx data
         in if length messagesToExtract = 0 then (data, None, [])
            else
              (case backfillLoop settings ctx worlds messagesToExtract
                      (completeBatches settings ctx data)
                      [0..<completeBatches settings ctx data] (data, 0, []) of
                 (d, totalEvents, lg) \<Rightarrow> (d, Some (totalEvents, length messagesToExtract), lg))))"

section \<open>Sample data\<close>

definition emptyVault :: vault_data where
  "emptyVault = \<lparr>memories = [], character_states = Map.empty, relationships = Map.empty,
     last_processed_message_id = - 1, last_extraction_batch = None, extracted_batches = None\<rparr>"

definition batchVault :: vault_data where
  "batchVault = emptyVault\<lparr>extracted_batches := Some []\<rparr>"

definition impactEvent :: "string \<Rightarrow> string \<Rightarrow> string \<Rightarrow> memory_event" where
  "impactEvent eid relationKey imp =
     \<lparr>ev_id = eid, event_type = Some ''relationship_change'', summary = Some ''They talk'',
      characters_involved = [''Alice'', ''Bob''], witnesses = [''Alice'', ''Bob''],
      location = ''unknown'', is_secret = False, emotional_impact = [],
      relationship_impact = [(relationKey, imp)], message_ids = [0], created_at = 0\<rparr>"

definition tenseVault :: vault_data where
  "tenseVault = emptyVault\<lparr>relationships :=
     [''Alice<->Bob'' \<mapsto> (newRelationship ''Alice'' ''Bob'')\<lparr>trust_level := 10, tension_level := 0\<rparr>]\<rparr>"

text \<open>
  A name that the relation-key pattern returns unchanged from either side of the arrow:
  not empty, no hyphen, no \<^verbatim>\<open><\<close>, no line terminator, no white space at either end.
\<close>

definition plainName :: "string \<Rightarrow> bool" where
  "plainName n =
     (n \<noteq> [] \<and> \<not> list_ex (\<lambda>c. c = CHR ''-'' \<or> c = CHR ''<'' \<or> isLineTerminator c) n
      \<and> \<not> isSpace (hd n) \<and> \<not> isSpace (last n))"

definition secretEvent :: memory_event where
  "secretEvent =
     \<lparr>ev_id = ''e1'', event_type = Some ''revelation'',
      summary = Some ''Bob hides the letter about Alice'',
      characters_involved = [''Alice'', ''Bob''], witnesses = [''Bob''],
      location = ''unknown'', is_secret = True, emotional_impact = [],
      relationship_impact = [], message_ids = [0], created_at = 0\<rparr>"

definition openEvent :: memory_event where
  "openEvent = secretEvent\<lparr>ev_id := ''e2'', is_secret := False, summary := Some ''Alice greets Bob''\<rparr>"

definition secretVault :: vault_data where
  "secretVault = emptyVault\<lparr>memories := [secretEvent]\<rparr>"

definition mixedVault :: vault_data where
  "mixedVault = emptyVault\<lparr>memories := [secretEvent, openEvent]\<rparr>"

definition swordEvent :: memory_event where
  "swordEvent =
     \<lparr>ev_id = ''e3'', event_type = Some ''action'', summary = Some ''The Sword breaks'',
      characters_involved = [''Alice''], witnesses = [''Alice'', ''Bob''],
      location = ''unknown'', is_secret = False, emotional_impact = [],
      relationship_impact = [], message_ids = [0], created_at = 0\<rparr>"

definition aliceLine :: message where
  "aliceLine = \<lparr>is_system = False, is_user = True, name = ''Alice'', mes = ''I trust you, Bob.''\<rparr>"

definition bobLine :: message where
  "bobLine = \<lparr>is_system = False, is_user = False, name = ''Bob'', mes = ''Then follow me.''\<rparr>"

definition hiddenLine :: message where
  "hiddenLine = \<lparr>is_system = True, is_user = False, name = ''System'', mes = ''[scene hidden]''\<rparr>"

definition sampleSettings :: settings where
  "sampleSettings = \<lparr>enabled = True, messagesPerExtraction = 5, extractionProfile = ''main'',
     selectedProfile = [], backfillMaxRPM = 30\<rparr>"

definition chatOf :: "message list \<Rightarrow> chat_context" where
  "chatOf msgs = \<lparr>chat = msgs, name1 = ''Alice'', name2 = ''Bob''\<rparr>"

definition sampleRaw :: raw_event where
  "sampleRaw = \<lparr>raw_id = None, raw_event_type = Some ''relationship_change'',
     raw_summary = Some ''Alice decides to trust Bob'',
     raw_characters_involved = Some [''Alice'', ''Bob''], raw_witnesses = None,
     raw_location = None, raw_is_secret = None,
     raw_emotional_impact = Some [(''Alice'', ''hopeful'')],
     raw_relationship_impact = Some [(''Alice->Bob'', ''trust increased'')]\<rparr>"

definition quietWorld :: world where
  "quietWorld = \<lparr>dateNow = 1000, newBatchId = ''batch_1000_k3'',
     generateId = (\<lambda>k. ''1000-'' @ replicate (Suc k) CHR ''x''),
     sendRequest = (\<lambda>profileId text. Inr ''[]''),
     parseReasoning = (\<lambda>content. content),
     decodeEvents = (\<lambda>s. if s = ''[]'' then Some [] else if s = ''[{}]'' then Some [sampleRaw] else None),
     saveResult = None\<rparr>"

definition busyWorld :: world where
  "busyWorld = quietWorld\<lparr>sendRequest := (\<lambda>profileId text. Inr ''[{}]'')\<rparr>"

definition failingWorld :: world where
  "failingWorld = quietWorld\<lparr>sendRequest := (\<lambda>profileId text. Inl (Error ''Failed to fetch''))\<rparr>"

definition unsavedWorld :: world where
  "unsavedWorld = busyWorld\<lparr>saveResult := Some (Error ''save failed'')\<rparr>"

text \<open>The world of a backfill run whose batch 1 fails at the request.\<close>

definition secondBatchFails :: "nat \<Rightarrow> world" where
  "secondBatchFails i = (if i = 1 then failingWorld else busyWorld)"

text \<open>
  How the extraction of batch \<open>i\<close> of a backfill run settles, and the number of events
  a settled extraction reports.
\<close>

definition batchResult ::
  "settings \<Rightarrow> chat_context \<Rightarrow> (nat \<Rightarrow> world) \<Rightarrow> vault_data \<Rightarrow> nat
     \<Rightarrow> js_error + extraction_summary option" where
  "batchResult settings ctx worlds data i =
     snd (extractMemories settings ctx (worlds i)
            (Some (batchSlice (messageCount settings) (backfillMessages settings ctx data) i)) data)"

definition eventsReported :: "js_error + extraction_summary option \<Rightarrow> nat" where
  "eventsReported r = (case r of Inr (Some result) \<Rightarrow> events_created result | _ \<Rightarrow> 0)"

section \<open>Trust and tension stay within bounds\<close>

lemma applyImpact_levels: "levelsInRange r \<Longrightarrow> levelsInRange (applyImpact now eid imp r)"
  by (auto simp: levelsInRange_def applyImpact_def updateTrust_def updateTension_def Let_def)

lemma newRelationship_levels: "levelsInRange (newRelationship a b)"
  by (simp add: levelsInRange_def newRelationship_def)

lemma relationStep_levels:
  assumes "\<And>r. rels k = Some r \<Longrightarrow> levelsInRange r"
    and "relationStep now eid rels entry k = Some r'"
  shows "levelsInRange r'"
proof (cases "matchRelationKey (fst entry)")
  case None
  with assms show ?thesis by (simp add: relationStep_def)
next
  case (Some ab)
  obtain a b where ab: "ab = (a, b)" by (cases ab)
  show ?thesis
  proof (cases "k = a @ ''<->'' @ b")
    case True
    have "levelsInRange (case rels k of None \<Rightarrow> newRelationship a b | Some r \<Rightarrow> r)"
      using assms(1) by (auto simp: newRelationship_levels split: option.splits)
    then show ?thesis
      using assms(2) Some ab True by (auto simp: relationStep_def Let_def applyImpact_levels)
  next
    case False
    then show ?thesis
      using assms Some ab by (auto simp: relationStep_def Let_def)
  qed
qed

lemma foldl_relationStep_levels:
  assumes "\<And>r. rels k = Some r \<Longrightarrow> levelsInRange r"
    and "foldl (relationStep now eid) rels entries k = Some r'"
  shows "levelsInRange r'"
  using assms
proof (induction entries arbitrary: rels)
  case Nil
  then show ?case by simp
next
  case (Cons e es)
  show ?case
  proof (rule Cons.IH)
    show "foldl (relationStep now eid) (relationStep now eid rels e) es k = Some r'"
      using Cons.prems(2) by simp
  next
    fix r assume "relationStep now eid rels e k = Some r"
    then show "levelsInRange r" using Cons.prems(1) relationStep_levels by blast
  qed
qed

lemma foldl_relationsOfEvent_levels:
  assumes "\<And>r. rels k = Some r \<Longrightarrow> levelsInRange r"
    and "foldl (relationsOfEvent now) rels events k = Some r'"
  shows "levelsInRange r'"
  using assms
proof (induction events arbitrary: rels)
  case Nil
  then show ?case by simp
next
  case (Cons e es)
  show ?case
  proof (rule Cons.IH)
    show "foldl (relationsOfEvent now) (relationsOfEvent now rels e) es k = Some r'"
      using Cons.prems(2) by simp
  next
    fix r assume "relationsOfEvent now rels e k = Some r"
    then show "levelsInRange r"
      using Cons.prems(1) foldl_relationStep_levels unfolding relationsOfEvent_def by blast
  qed
qed

text \<open>
  Claim C4. Take any key of the relationship store. If the record under it, when there is
  one, has its trust and tension levels between 0 and 10, then after
  \<open>updateRelationshipsFromEvents\<close> has propagated any list of events, with any impact
  texts, the record under that key again has both levels between 0 and 10. A record the
  call creates starts at trust 5 and tension 0.
\<close>

theorem trust_tension_stay_in_range:
  assumes "\<forall>r. relationships data k = Some r \<longrightarrow> levelsInRange r"
  shows "\<forall>r'. relationships (updateRelationshipsFromEvents now events data) k = Some r'
           \<longrightarrow> levelsInRange r'"
  using assms foldl_relationsOfEvent_levels [of "relationships data" k now events]
  by (simp add: updateRelationshipsFromEvents_def)

lemma tenseVault_step:
  "relationships (updateRelationshipsFromEvents 7
       [impactEvent ''e1'' ''Alice -> Bob'' ''Trust increased, tension decreased''] tenseVault)
     ''Alice<->Bob''
   = Some \<lparr>character_a = ''Alice'', character_b = ''Bob'', trust_level = 10, tension_level = 1,
        relationship_type = ''acquaintance'',
        history = [\<lparr>event_id = ''e1'', impact = ''Trust increased, tension decreased'', timestamp = 7\<rparr>]\<rparr>"
  by code_simp

theorem trust_tension_stay_in_range_witness:
  "levelsInRange ((newRelationship ''Alice'' ''Bob'')\<lparr>trust_level := 10, tension_level := 0\<rparr>)
   \<and> relationships tenseVault ''Alice<->Bob''
       = Some ((newRelationship ''Alice'' ''Bob'')\<lparr>trust_level := 10, tension_level := 0\<rparr>)
   \<and> (\<exists>r'. relationships (updateRelationshipsFromEvents 7
          [impactEvent ''e1'' ''Alice -> Bob'' ''Trust increased, tension decreased''] tenseVault)
          ''Alice<->Bob'' = Some r' \<and> trust_level r' = 10 \<and> tension_level r' = 1 \<and> levelsInRange r')"
proof -
  have h: "\<forall>r. relationships tenseVault ''Alice<->Bob'' = Some r \<longrightarrow> levelsInRange r"
    by (simp add: tenseVault_def emptyVault_def newRelationship_def levelsInRange_def)
  show ?thesis
    using h trust_tension_stay_in_range [OF h, of 7
       "[impactEvent ''e1'' ''Alice -> Bob'' ''Trust increased, tension decreased'']"]
    by (simp add: tenseVault_step) (simp add: tenseVault_def emptyVault_def)
qed

section \<open>Relationship records and the direction of the key\<close>

lemma matchSecond_plain:
  assumes "b \<noteq> []" "\<not> isSpace (hd b)" "\<not> list_ex isLineTerminator b"
  shows "matchSecond b = Some b"
proof -
  have "dropWhile isSpace b = b" using assms(1,2) by (cases b) auto
  then show ?thesis using assms by (simp add: matchSecond_def)
qed

lemma matchArrow_arrow: "matchArrow (''->'' @ b) = matchSecond b"
  by (simp add: matchArrow_def isSpace_def)

lemma matchArrow_inside:
  assumes "a \<noteq> []" "\<not> isSpace (last a)" "CHR ''-'' \<notin> set a"
  shows "matchArrow (a @ t) = None"
proof -
  have ex: "\<exists>x\<in>set a. \<not> isSpace x" using assms(1,2) last_in_set by blast
  then obtain x where "x \<in> set a" "\<not> isSpace x" by blast
  then have dw: "dropWhile isSpace (a @ t) = dropWhile isSpace a @ t"
    by (rule dropWhile_append1)
  from ex have ne: "dropWhile isSpace a \<noteq> []" by simp
  then obtain c cs where ccs: "dropWhile isSpace a = c # cs" by (cases "dropWhile isSpace a") auto
  have "c \<in> set a" using ccs set_dropWhileD [of c isSpace a] by simp
  then have "c \<noteq> CHR ''-''" using assms(3) by auto
  then show ?thesis unfolding matchArrow_def dw ccs by (cases "cs @ t") auto
qed

lemma matchFrom_plain:
  assumes "a \<noteq> []" "\<not> isSpace (last a)" "CHR ''-'' \<notin> set a" "\<not> list_ex isLineTerminator a"
    and "matchSecond b = Some b"
  shows "matchFrom pre (a @ ''->'' @ b) = Some (pre @ a, b)"
  using assms(1-4)
proof (induction a arbitrary: pre)
  case Nil
  then show ?case by simp
next
  case (Cons c a)
  show ?case
  proof (cases "a = []")
    case True
    then show ?thesis using Cons.prems assms(5) matchArrow_arrow [of b] by simp
  next
    case False
    then have "matchArrow (a @ ''->'' @ b) = None"
      using Cons.prems matchArrow_inside [of a "''->'' @ b"] by simp
    moreover have "matchFrom (pre @ [c]) (a @ ''->'' @ b) = Some ((pre @ [c]) @ a, b)"
      using False Cons.prems by (intro Cons.IH) auto
    ultimately show ?thesis using Cons.prems by simp
  qed
qed

lemma matchRelationKey_plain:
  assumes "plainName a" "plainName b"
  shows "matchRelationKey (a @ ''->'' @ b) = Some (a, b)"
proof -
  have "matchSecond b = Some b"
    using assms(2) by (intro matchSecond_plain) (auto simp: plainName_def list_ex_iff)
  then show ?thesis
    using assms(1) matchFrom_plain [of a b "[]"]
    by (auto simp: matchRelationKey_def plainName_def list_ex_iff)
qed

lemma pairKey_inject:
  assumes "CHR ''<'' \<notin> set a" "CHR ''<'' \<notin> set b" "a @ ''<->'' @ b = b @ ''<->'' @ a"
  shows "a = b"
proof -
  have "takeWhile (\<lambda>c. c \<noteq> CHR ''<'') (a @ ''<->'' @ b)
        = a @ takeWhile (\<lambda>c. c \<noteq> CHR ''<'') (''<->'' @ b)"
    using assms(1) by (intro takeWhile_append2) auto
  then have "takeWhile (\<lambda>c. c \<noteq> CHR ''<'') (a @ ''<->'' @ b) = a" by simp
  moreover have "takeWhile (\<lambda>c. c \<noteq> CHR ''<'') (b @ ''<->'' @ a)
        = b @ takeWhile (\<lambda>c. c \<noteq> CHR ''<'') (''<->'' @ a)"
    using assms(2) by (intro takeWhile_append2) auto
  then have "takeWhile (\<lambda>c. c \<noteq> CHR ''<'') (b @ ''<->'' @ a) = b" by simp
  ultimately show ?thesis using assms(3) by simp
qed

lemma relationStep_plain:
  assumes "plainName a" "plainName b"
  shows "relationStep now eid rels (a @ ''->'' @ b, imp) =
         rels(a @ ''<->'' @ b \<mapsto> applyImpact now eid imp
           (case rels (a @ ''<->'' @ b) of None \<Rightarrow> newRelationship a b | Some r \<Rightarrow> r))"
  using matchRelationKey_plain [OF assms] by (simp add: relationStep_def Let_def)

text \<open>
  Claim C7, as the code has it. The store is keyed by the string \<^verbatim>\<open>A<->B\<close> built in the
  direction the impact key is written. For two different plain names, processing
  \<^verbatim>\<open>A->B\<close> and then \<^verbatim>\<open>B->A\<close> leaves two records under two different keys: the one under
  \<^verbatim>\<open>A<->B\<close> received the first impact only, the one under \<^verbatim>\<open>B<->A\<close> the second only, and
  each is created with its characters in the order of its own key when it was absent.
\<close>

theorem relation_records_follow_direction:
  assumes "plainName a" "plainName b" "a \<noteq> b"
    and "relationship_impact ev1 = [(a @ ''->'' @ b, imp1)]"
    and "relationship_impact ev2 = [(b @ ''->'' @ a, imp2)]"
  shows "a @ ''<->'' @ b \<noteq> b @ ''<->'' @ a
    \<and> relationships (updateRelationshipsFromEvents now [ev1, ev2] data) (a @ ''<->'' @ b)
        = Some (applyImpact now (ev_id ev1) imp1
            (case relationships data (a @ ''<->'' @ b) of None \<Rightarrow> newRelationship a b | Some r \<Rightarrow> r))
    \<and> relationships (updateRelationshipsFromEvents now [ev1, ev2] data) (b @ ''<->'' @ a)
        = Some (applyImpact now (ev_id ev2) imp2
            (case relationships data (b @ ''<->'' @ a) of None \<Rightarrow> newRelationship b a | Some r \<Rightarrow> r))"
proof -
  let ?kab = "a @ ''<->'' @ b" and ?kba = "b @ ''<->'' @ a"
  let ?rels1 = "relationStep now (ev_id ev1) (relationships data) (a @ ''->'' @ b, imp1)"
  let ?rels2 = "relationStep now (ev_id ev2) ?rels1 (b @ ''->'' @ a, imp2)"
  have ne: "?kab \<noteq> ?kba"
    using assms(1-3) pairKey_inject [of a b] by (auto simp: plainName_def list_ex_iff)
  have run: "relationships (updateRelationshipsFromEvents now [ev1, ev2] data) = ?rels2"
    by (simp add: updateRelationshipsFromEvents_def relationsOfEvent_def assms(4,5))
  have r1: "?rels1 = (relationships data)(?kab \<mapsto> applyImpact now (ev_id ev1) imp1
      (case relationships data ?kab of None \<Rightarrow> newRelationship a b | Some r \<Rightarrow> r))"
    by (rule relationStep_plain [OF assms(1,2)])
  have r2: "?rels2 = ?rels1(?kba \<mapsto> applyImpact now (ev_id ev2) imp2
      (case ?rels1 ?kba of None \<Rightarrow> newRelationship b a | Some r \<Rightarrow> r))"
    by (rule relationStep_plain [OF assms(2,1)])
  have "?rels2 ?kab = ?rels1 ?kab" using ne by (subst r2) simp
  also have "\<dots> = Some (applyImpact now (ev_id ev1) imp1
      (case relationships data ?kab of None \<Rightarrow> newRelationship a b | Some r \<Rightarrow> r))"
    by (subst r1) simp
  finally have first: "?rels2 ?kab = Some (applyImpact now (ev_id ev1) imp1
      (case relationships data ?kab of None \<Rightarrow> newRelationship a b | Some r \<Rightarrow> r))" .
  have "?rels1 ?kba = relationships data ?kba" using ne by (subst r1) simp
  then have second: "?rels2 ?kba = Some (applyImpact now (ev_id ev2) imp2
      (case relationships data ?kba of None \<Rightarrow> newRelationship b a | Some r \<Rightarrow> r))"
    by (subst r2) simp
  show ?thesis using ne first second unfolding run by blast
qed


theorem relation_records_follow_direction_witness:
  "plainName ''Alice'' \<and> plainName ''Bob'' \<and> ''Alice'' \<noteq> ''Bob''
   \<and> relationships (updateRelationshipsFromEvents 7
         [impactEvent ''e1'' ''Alice->Bob'' ''trust increased'',
          impactEvent ''e2'' ''Bob->Alice'' ''trust decreased''] emptyVault) ''Alice<->Bob''
       = Some (applyImpact 7 ''e1'' ''trust increased'' (newRelationship ''Alice'' ''Bob''))
   \<and> relationships (updateRelationshipsFromEvents 7
         [impactEvent ''e1'' ''Alice->Bob'' ''trust increased'',
          impactEvent ''e2'' ''Bob->Alice'' ''trust decreased''] emptyVault) ''Bob<->Alice''
       = Some (applyImpact 7 ''e2'' ''trust decreased'' (newRelationship ''Bob'' ''Alice''))"
proof -
  have pa: "plainName ''Alice''" and pb: "plainName ''Bob''"
    by (simp_all add: plainName_def isLineTerminator_def isSpace_def)
  have ne: "''Alice'' \<noteq> ''Bob''" by simp
  show ?thesis
    using pa pb relation_records_follow_direction [OF pa pb ne,
        of "impactEvent ''e1'' ''Alice->Bob'' ''trust increased''" "''trust increased''"
           "impactEvent ''e2'' ''Bob->Alice'' ''trust decreased''" "''trust decreased''"
           7 emptyVault]
    by (simp add: impactEvent_def emptyVault_def)
qed

text \<open>
  The claim as written fails: from an empty store, \<^verbatim>\<open>Alice->Bob\<close> followed by \<^verbatim>\<open>Bob->Alice\<close>
  gives a record for each direction, the first with trust 6 and the second with trust 4.
\<close>

theorem reversed_key_creates_second_record:
  "map_option (\<lambda>r. (character_a r, character_b r, trust_level r, length (history r)))
     (relationships (updateRelationshipsFromEvents 7
         [impactEvent ''e1'' ''Alice->Bob'' ''trust increased'',
          impactEvent ''e2'' ''Bob->Alice'' ''trust decreased''] emptyVault) ''Alice<->Bob'')
     = Some (''Alice'', ''Bob'', 6, 1)
   \<and> map_option (\<lambda>r. (character_a r, character_b r, trust_level r, length (history r)))
     (relationships (updateRelationshipsFromEvents 7
         [impactEvent ''e1'' ''Alice->Bob'' ''trust increased'',
          impactEvent ''e2'' ''Bob->Alice'' ''trust decreased''] emptyVault) ''Bob<->Alice'')
     = Some (''Bob'', ''Alice'', 4, 1)"
  by code_simp

section \<open>Secret events and the point of view\<close>

lemma accessible_secret:
  assumes "m \<in> set (accessibleMemories data characterName)" "is_secret m"
  shows "listedIn (toLowerCase characterName) (witnesses m)
         \<or> ev_id m \<in> set (knownEventIds data characterName)"
  using assms by (auto simp: accessibleMemories_def povAccepts_def split: if_splits)

lemma sample_povs:
  "map ev_id (accessibleMemories mixedVault ''BOB'') = [''e1'', ''e2'']"
  "map ev_id (memoriesToUse mixedVault ''BOB'') = [''e1'', ''e2'']"
  "map ev_id (memoriesToUse mixedVault ''alice'') = [''e2'']"
  by code_simp+

text \<open>
  Claim C1, as the code has it. The filter accepts a secret event only for a character
  listed among its witnesses (names compared in lower case) or holding its id in
  \<^verbatim>\<open>known_events\<close>; \<^verbatim>\<open>characters_involved\<close> is consulted for events that are not secret
  only. The list handed on to the selector is the filtered one, except that when the
  filter accepts nothing the whole store is handed on, secret events included.
\<close>

theorem secret_event_visibility:
  "(m \<in> set (accessibleMemories data characterName) \<and> is_secret m
      \<longrightarrow> listedIn (toLowerCase characterName) (witnesses m)
          \<or> ev_id m \<in> set (knownEventIds data characterName))
   \<and> (m \<in> set (memoriesToUse data characterName) \<and> is_secret m
      \<longrightarrow> listedIn (toLowerCase characterName) (witnesses m)
          \<or> ev_id m \<in> set (knownEventIds data characterName)
          \<or> (accessibleMemories data characterName = []
              \<and> memoriesToUse data characterName = memories data))"
  using accessible_secret [of m data characterName]
  by (auto simp: memoriesToUse_def Let_def split: if_splits)

theorem secret_event_visibility_witness:
  "secretEvent \<in> set (accessibleMemories mixedVault ''BOB'')
   \<and> secretEvent \<in> set (memoriesToUse mixedVault ''BOB'')
   \<and> is_secret secretEvent
   \<and> listedIn (toLowerCase ''BOB'') (witnesses secretEvent)
   \<and> map ev_id (memoriesToUse mixedVault ''alice'') = [''e2'']"
proof -
  have acc: "secretEvent \<in> set (accessibleMemories mixedVault ''BOB'')"
    by code_simp
  have use: "secretEvent \<in> set (memoriesToUse mixedVault ''BOB'')"
    by code_simp
  have sec: "is_secret secretEvent" by (simp add: secretEvent_def)
  have known: "knownEventIds mixedVault ''BOB'' = []"
    by (simp add: knownEventIds_def mixedVault_def emptyVault_def)
  have "listedIn (toLowerCase ''BOB'') (witnesses secretEvent)"
    using secret_event_visibility [of secretEvent mixedVault "''BOB''"] acc sec known by simp
  then show ?thesis using acc use sec sample_povs(3) by simp
qed

text \<open>
  The claim as written fails: Alice is involved in the secret event, is no witness of it
  and does not know it, and the store holds nothing else. The filter accepts nothing, so
  retrieval falls back to the whole store and the secret event reaches Alice.
\<close>

theorem secret_event_shown_by_fallback:
  "secretEvent \<in> set (memoriesToUse secretVault ''Alice'') \<and> is_secret secretEvent
   \<and> \<not> listedIn (toLowerCase ''Alice'') (witnesses secretEvent)
   \<and> ev_id secretEvent \<notin> set (knownEventIds secretVault ''Alice'')"
  by (simp add: memoriesToUse_def accessibleMemories_def povAccepts_def secretVault_def
      secretEvent_def emptyVault_def knownEventIds_def listedIn_def toLowerCase_def lowerChar_def)

section \<open>The relevance score\<close>

lemma foldl_involvementStep:
  "foldl (involvementStep memory) s cs =
     s + 5 * real (length (filter (\<lambda>c. c \<in> set (characters_involved memory)) cs))
       + 3 * real (length (filter (\<lambda>c. c \<in> set (witnesses memory)) cs))"
  by (induction cs arbitrary: s) (auto simp: involvementStep_def Let_def)

lemma foldl_keywordStep:
  "foldl (keywordStep summaryLower) s ws = s + real (length (filter (str_includes summaryLower) ws))"
  by (induction ws arbitrary: s) (auto simp: keywordStep_def)

text \<open>
  Claim C8, as the code has it. The score of an event is the sum of: the recency term
  \<open>max 0 (10 - ageHours)\<close> with \<open>ageHours = (now - created_at) / 3600000\<close>; 5 for each
  entry of the active characters found in \<^verbatim>\<open>characters_involved\<close> and 3 for each found in
  \<^verbatim>\<open>witnesses\<close>; 1 for each word of the lower-cased context longer than three characters
  that occurs in the lower-cased summary, a word counting once for every time it stands
  in the context; 3 for a revelation and 2 for a relationship change.
\<close>

theorem score_is_sum_of_terms:
  "scoreMemory now recentContext activeCharacters memory =
     max 0 (10 - real_of_int (now - created_at memory) / 3600000)
     + 5 * real (length (filter (\<lambda>c. c \<in> set (characters_involved memory)) activeCharacters))
     + 3 * real (length (filter (\<lambda>c. c \<in> set (witnesses memory)) activeCharacters))
     + real (length (filter (str_includes (case summary memory of None \<Rightarrow> [] | Some s \<Rightarrow> toLowerCase s))
                       (contextWords recentContext)))
     + (if event_type memory = Some ''revelation'' then 3 else 0)
     + (if event_type memory = Some ''relationship_change'' then 2 else 0)"
  by (simp add: scoreMemory_def Let_def foldl_involvementStep foldl_keywordStep)

text \<open>
  The claim as written fails: the context \<^verbatim>\<open>sword SWORD\<close> holds one distinct word, found
  in the summary, and the event is ten hours old with no other bonus. The code scores it
  2, the sum with the keyword term over distinct words is 1.
\<close>

theorem repeated_word_counts_twice:
  "scoreMemory 36000000 ''sword SWORD'' [] swordEvent = 2
   \<and> specScore 36000000 ''sword SWORD'' [] swordEvent = 1"
  by code_simp

section \<open>The formatter returns\<close>

lemma length_joinWith:
  "length (joinWith sep ls) = sum_list (map length ls) + length sep * (length ls - 1)"
  by (induction sep ls rule: joinWith.induct) auto

lemma truncateMemories_take:
  "\<exists>k. truncateMemories available cur mems = take k mems"
proof (induction mems arbitrary: cur)
  case Nil
  then show ?case by simp
next
  case (Cons m ms)
  show ?case
  proof (cases "cur + memoryTokens m \<le> available")
    case True
    from Cons.IH [of "cur + memoryTokens m"] obtain k
      where "truncateMemories available (cur + memoryTokens m) ms = take k ms" by blast
    then have "truncateMemories available cur (m # ms) = take (Suc k) (m # ms)"
      using True by simp
    then show ?thesis by blast
  next
    case False
    then have "truncateMemories available cur (m # ms) = take 0 (m # ms)" by simp
    then show ?thesis by blast
  qed
qed

lemma sum_list_take_le:
  fixes f :: "'a \<Rightarrow> nat"
  shows "sum_list (map f (take k xs)) \<le> sum_list (map f xs)"
proof -
  have "sum_list (map f xs) = sum_list (map f (take k xs)) + sum_list (map f (drop k xs))"
    by (metis append_take_drop_id map_append sum_list_append)
  then show ?thesis by simp
qed

lemma contextLines_take_le:
  "length (joinLines (contextLines (take k mems) rels es cn))
     \<le> length (joinLines (contextLines mems rels es cn))"
proof -
  let ?memPart = "\<lambda>ms. if length ms > 0 then [''Relevant memories:''] @ map memoryLine ms else []"
  define pre where "pre =
     [''['' @ cn @ [CHR 0x27] @ ''s Memory & State]'', []]
     @ (if es \<noteq> [] \<and> es \<noteq> ''neutral'' then [''Current emotional state: '' @ es, []] else [])
     @ (if length rels > 0
        then [''Relationships with present characters:''] @ map relationshipLine rels @ [[]] else [])"
  have pre: "\<And>ms. contextLines ms rels es cn
      = pre @ ?memPart ms @ [''[End '' @ cn @ [CHR 0x27] @ ''s Memory]'']"
    unfolding contextLines_def pre_def by (simp only: append_assoc)
  have s: "sum_list (map length (?memPart (take k mems))) \<le> sum_list (map length (?memPart mems))"
    using sum_list_take_le [of "\<lambda>m. length (memoryLine m)" k mems]
    by (auto simp: comp_def)
  have l: "length (?memPart (take k mems)) \<le> length (?memPart mems)"
    by auto
  show ?thesis
    unfolding joinLines_def length_joinWith pre
    using s l by (simp add: add_le_mono)
qed

lemma estimatedTokens_truncated:
  "estimatedTokens (truncatedMemories mems rels es cn b) rels es cn \<le> estimatedTokens mems rels es cn"
proof -
  obtain k where "truncatedMemories mems rels es cn b = take k mems"
    unfolding truncatedMemories_def Let_def using truncateMemories_take by blast
  then show ?thesis
    using contextLines_take_le [of k mems rels es cn]
    by (simp add: estimatedTokens_def divide_right_mono)
qed

lemma formatWithin_enough:
  assumes "0 < b" "estimatedTokens mems rels es cn \<le> b * 2 ^ n"
  shows "\<exists>s. formatWithin (Suc n) mems rels es cn b = Some s"
  using assms
proof (induction n arbitrary: mems b)
  case 0
  then show ?case by simp
next
  case (Suc n)
  show ?case
  proof (cases "estimatedTokens mems rels es cn > b")
    case False
    then show ?thesis by simp
  next
    case True
    have "estimatedTokens (truncatedMemories mems rels es cn b) rels es cn \<le> (b * 2) * 2 ^ n"
      using estimatedTokens_truncated [of mems rels es cn b] Suc.prems(2) by (simp add: mult.assoc)
    moreover have "0 < b * 2" using Suc.prems(1) by simp
    ultimately obtain s where
      "formatWithin (Suc n) (truncatedMemories mems rels es cn b) rels es cn (b * 2) = Some s"
      using Suc.IH by blast
    then show ?thesis using True by (subst formatWithin.simps) simp
  qed
qed

lemma formatWithin_sound:
  "formatWithin n mems rels es cn b = Some s \<Longrightarrow> formatContextForInjection mems rels es cn b = Some s"
proof (induction n arbitrary: mems b)
  case 0
  then show ?case by simp
next
  case (Suc n)
  show ?case
  proof (cases "estimatedTokens mems rels es cn > b")
    case True
    then have "formatWithin n (truncatedMemories mems rels es cn b) rels es cn (b * 2) = Some s"
      using Suc.prems by simp
    then have "formatContextForInjection (truncatedMemories mems rels es cn b) rels es cn (b * 2) = Some s"
      by (rule Suc.IH)
    then show ?thesis using True by (subst formatContextForInjection.simps) simp
  next
    case False
    then show ?thesis using Suc.prems by (subst formatContextForInjection.simps) simp
  qed
qed

lemma doubling_reaches:
  fixes b e :: real
  assumes "0 < b"
  shows "\<exists>n. e \<le> b * 2 ^ n"
proof -
  obtain n where "e / b < 2 ^ n" using real_arch_pow [of 2 "e / b"] by auto
  then have "e < b * 2 ^ n" using assms by (simp add: pos_divide_less_eq mult.commute)
  then show ?thesis by (intro exI [of _ n]) simp
qed

text \<open>
  Claim C9. For every list of memories, every list of relationship summaries, every
  emotional state and every positive token budget, the formatter returns a string, and
  the number of times it calls itself is bounded: if the first estimate is at most the
  budget doubled \<open>n\<close> times, at most \<open>n + 1\<close> invocations are made, and such an \<open>n\<close> exists.
\<close>

theorem formatting_terminates:
  assumes "0 < tokenBudget"
  shows "(\<exists>n. estimatedTokens mems rels es cn \<le> tokenBudget * 2 ^ n)
    \<and> (\<forall>n. estimatedTokens mems rels es cn \<le> tokenBudget * 2 ^ n \<longrightarrow>
          (\<exists>s. formatWithin (Suc n) mems rels es cn tokenBudget = Some s
              \<and> formatContextForInjection mems rels es cn tokenBudget = Some s))"
  using assms doubling_reaches formatWithin_enough formatWithin_sound by blast


lemma sample_format:
  "formatWithin 5 [swordEvent] [] ''neutral'' ''Alice'' 1
     = Some (joinLines [''[Alice'' @ [CHR 0x27] @ ''s Memory & State]'', [],
                        ''[End Alice'' @ [CHR 0x27] @ ''s Memory]''])"
  "formatWithin 4 [swordEvent] [] ''neutral'' ''Alice'' 1 = None"
  "estimatedTokens [swordEvent] [] ''neutral'' ''Alice'' = 21"
  by code_simp+

theorem formatting_terminates_witness:
  "(0::real) < 1
   \<and> estimatedTokens [swordEvent] [] ''neutral'' ''Alice'' \<le> 1 * 2 ^ 5
   \<and> formatContextForInjection [swordEvent] [] ''neutral'' ''Alice'' 1
       = Some (joinLines [''[Alice'' @ [CHR 0x27] @ ''s Memory & State]'', [],
                          ''[End Alice'' @ [CHR 0x27] @ ''s Memory]''])"
proof -
  have pos: "(0::real) < 1" by simp
  have est: "estimatedTokens [swordEvent] [] ''neutral'' ''Alice'' \<le> 1 * 2 ^ 5"
    by (simp add: sample_format(3))
  from formatting_terminates [OF pos, of "[swordEvent]" "[]" "''neutral''" "''Alice''"] est
  obtain s where "formatWithin (Suc 5) [swordEvent] [] ''neutral'' ''Alice'' 1 = Some s"
    and "formatContextForInjection [swordEvent] [] ''neutral'' ''Alice'' 1 = Some s"
    by blast
  moreover have "formatWithin (Suc 5) [swordEvent] [] ''neutral'' ''Alice'' 1
     = Some (joinLines [''[Alice'' @ [CHR 0x27] @ ''s Memory & State]'', [],
                        ''[End Alice'' @ [CHR 0x27] @ ''s Memory]''])"
    by code_simp
  ultimately show ?thesis using pos est by simp
qed

section \<open>One extraction cycle\<close>

lemma storeEvents_marker:
  "last_processed_message_id (storeEvents w sel events data) =
     max (orElse (last_processed_message_id data) (- 1)) (Max (set (map (\<lambda>m. int (fst m)) sel)))"
  by (simp add: storeEvents_def Let_def updateCharacterStatesFromEvents_def
      updateRelationshipsFromEvents_def)

lemma storeEvents_memories:
  "memories (storeEvents w sel events data) = memories data @ events"
  by (simp add: storeEvents_def Let_def updateCharacterStatesFromEvents_def
      updateRelationshipsFromEvents_def)

lemma extractMemories_reached:
  assumes "enabled settings" "chat ctx \<noteq> []"
    and "selectMessages settings (chat ctx) messageIds data = sel" "sel \<noteq> []"
  shows "extractMemories settings ctx w messageIds data =
     (case callLLMForExtraction settings w (messagesText ctx sel) of
        Inl e \<Rightarrow> (data, Inl e)
      | Inr extractedJson \<Rightarrow>
          (let events = parseExtractionResult w extractedJson sel
           in if events \<noteq> []
              then (case saveResult w of
                      Some e \<Rightarrow> (storeEvents w sel events data, Inl e)
                    | None \<Rightarrow> (storeEvents w sel events data,
                        Inr (Some \<lparr>events_created = length events, messages_processed = length sel\<rparr>)))
              else (data, Inr (Some \<lparr>events_created = 0, messages_processed = length sel\<rparr>))))"
  using assms by (auto simp: extractMemories_def Let_def split: sum.splits option.splits)

lemma sample_cycles:
  "callLLMForExtraction sampleSettings quietWorld
     (messagesText (chatOf [aliceLine, bobLine])
        (selectMessages sampleSettings [aliceLine, bobLine] None emptyVault)) = Inr ''[]''"
  "parseExtractionResult quietWorld ''[]''
     (selectMessages sampleSettings [aliceLine, bobLine] None emptyVault) = []"
  "callLLMForExtraction sampleSettings busyWorld
     (messagesText (chatOf [aliceLine, bobLine])
        (selectMessages sampleSettings [aliceLine, bobLine] None emptyVault)) = Inr ''[{}]''"
  "length (parseExtractionResult busyWorld ''[{}]''
     (selectMessages sampleSettings [aliceLine, bobLine] None emptyVault)) = 1"
  "callLLMForExtraction sampleSettings failingWorld
     (messagesText (chatOf [aliceLine, bobLine])
        (selectMessages sampleSettings [aliceLine, bobLine] None emptyVault))
     = Inl (Error ''Failed to fetch'')"
  "callLLMForExtraction sampleSettings unsavedWorld
     (messagesText (chatOf [aliceLine, bobLine])
        (selectMessages sampleSettings [aliceLine, bobLine] None emptyVault)) = Inr ''[{}]''"
  "length (parseExtractionResult unsavedWorld ''[{}]''
     (selectMessages sampleSettings [aliceLine, bobLine] None emptyVault)) = 1"
  "map fst (selectMessages sampleSettings [aliceLine, bobLine] None emptyVault) = [0, 1]"
  by code_simp+

text \<open>
  Claim C2, as the code has it. When the call to the model succeeds and the parser
  returns no event, the cycle resolves with \<^verbatim>\<open>events_created = 0\<close> and the number of
  messages it looked at, and leaves the store as it was: the marker of the last
  processed message does not move. The marker moves, to the larger of its old value
  (zero read as -1) and the largest id of the batch, in the branch taken when the parser
  returned at least one event.
\<close>

theorem empty_result_keeps_marker:
  assumes "enabled settings" "chat ctx \<noteq> []"
    and "selectMessages settings (chat ctx) messageIds data = sel" "sel \<noteq> []"
    and "callLLMForExtraction settings w (messagesText ctx sel) = Inr extractedJson"
    and "parseExtractionResult w extractedJson sel = events"
  shows "(events = [] \<longrightarrow>
            extractMemories settings ctx w messageIds data
              = (data, Inr (Some \<lparr>events_created = 0, messages_processed = length sel\<rparr>)))
       \<and> (events \<noteq> [] \<and> saveResult w = None \<longrightarrow>
            snd (extractMemories settings ctx w messageIds data)
              = Inr (Some \<lparr>events_created = length events, messages_processed = length sel\<rparr>)
            \<and> last_processed_message_id (fst (extractMemories settings ctx w messageIds data))
              = max (orElse (last_processed_message_id data) (- 1))
                    (Max (set (map (\<lambda>m. int (fst m)) sel))))"
  using assms(5,6) unfolding extractMemories_reached [OF assms(1-4)]
  by (auto simp: Let_def storeEvents_marker)


theorem empty_result_keeps_marker_witness:
  "enabled sampleSettings \<and> chat (chatOf [aliceLine, bobLine]) \<noteq> []
   \<and> selectMessages sampleSettings [aliceLine, bobLine] None emptyVault \<noteq> []
   \<and> extractMemories sampleSettings (chatOf [aliceLine, bobLine]) quietWorld None emptyVault
       = (emptyVault, Inr (Some \<lparr>events_created = 0, messages_processed = 2\<rparr>))
   \<and> snd (extractMemories sampleSettings (chatOf [aliceLine, bobLine]) busyWorld None emptyVault)
       = Inr (Some \<lparr>events_created = 1, messages_processed = 2\<rparr>)
   \<and> last_processed_message_id
         (fst (extractMemories sampleSettings (chatOf [aliceLine, bobLine]) busyWorld None emptyVault))
       = 1"
proof -
  let ?sel = "selectMessages sampleSettings [aliceLine, bobLine] None emptyVault"
  have en: "enabled sampleSettings" by (simp add: sampleSettings_def)
  have ch: "chat (chatOf [aliceLine, bobLine]) \<noteq> []" by (simp add: chatOf_def)
  have sel: "selectMessages sampleSettings (chat (chatOf [aliceLine, bobLine])) None emptyVault = ?sel"
    by (simp add: chatOf_def)
  have ne: "?sel \<noteq> []" using sample_cycles(8) by auto
  have len: "length ?sel = 2" using arg_cong [OF sample_cycles(8), of length] by simp
  have mx: "Max (set (map (\<lambda>m. int (fst m)) ?sel)) = 1"
    using arg_cong [OF sample_cycles(8), of "\<lambda>l. Max (set (map int l))"] by (simp add: comp_def)
  have quiet: "extractMemories sampleSettings (chatOf [aliceLine, bobLine]) quietWorld None emptyVault
       = (emptyVault, Inr (Some \<lparr>events_created = 0, messages_processed = 2\<rparr>))"
    using empty_result_keeps_marker [OF en ch sel ne sample_cycles(1) sample_cycles(2)] len by simp
  have "parseExtractionResult busyWorld ''[{}]'' ?sel \<noteq> []" using sample_cycles(4) by auto
  moreover have "saveResult busyWorld = None" by (simp add: busyWorld_def quietWorld_def)
  ultimately have busy:
    "snd (extractMemories sampleSettings (chatOf [aliceLine, bobLine]) busyWorld None emptyVault)
       = Inr (Some \<lparr>events_created = 1, messages_processed = 2\<rparr>)
     \<and> last_processed_message_id
         (fst (extractMemories sampleSettings (chatOf [aliceLine, bobLine]) busyWorld None emptyVault))
       = 1"
    using empty_result_keeps_marker [OF en ch sel ne sample_cycles(3) refl] len mx sample_cycles(4)
    by (simp add: emptyVault_def orElse_def)
  show ?thesis using en ch ne quiet busy by simp
qed

text \<open>
  The claim as written fails: the call succeeds, the parser returns no event, the cycle
  resolves, and the marker is still -1 although messages 0 and 1 were looked at.
\<close>

theorem marker_not_advanced_without_events:
  "callLLMForExtraction sampleSettings quietWorld
     (messagesText (chatOf [aliceLine, bobLine])
        (selectMessages sampleSettings [aliceLine, bobLine] None emptyVault)) = Inr ''[]''
   \<and> map fst (selectMessages sampleSettings [aliceLine, bobLine] None emptyVault) = [0, 1]
   \<and> snd (extractMemories sampleSettings (chatOf [aliceLine, bobLine]) quietWorld None emptyVault)
       = Inr (Some \<lparr>events_created = 0, messages_processed = 2\<rparr>)
   \<and> last_processed_message_id
         (fst (extractMemories sampleSettings (chatOf [aliceLine, bobLine]) quietWorld None emptyVault))
       = - 1"
  by code_simp

text \<open>
  Claim C3, as the code has it. When the call to the model throws (no profile, a request
  that fails, an empty answer), the cycle rejects with that error and the store is the
  one it started from: events, character states, relationships and marker. Nothing is
  rolled back when a later step throws: when saving fails after events were parsed, the
  cycle rejects with the error of the save, and the store in memory holds the new events,
  the states and relationships derived from them and the advanced marker.
\<close>

theorem failed_call_keeps_store:
  assumes "enabled settings" "chat ctx \<noteq> []"
    and "selectMessages settings (chat ctx) messageIds data = sel" "sel \<noteq> []"
  shows "(callLLMForExtraction settings w (messagesText ctx sel) = Inl e \<longrightarrow>
            extractMemories settings ctx w messageIds data = (data, Inl e))
       \<and> (callLLMForExtraction settings w (messagesText ctx sel) = Inr extractedJson
            \<and> parseExtractionResult w extractedJson sel = events \<and> events \<noteq> []
            \<and> saveResult w = Some e \<longrightarrow>
            extractMemories settings ctx w messageIds data = (storeEvents w sel events data, Inl e)
            \<and> memories (storeEvents w sel events data) = memories data @ events)"
  unfolding extractMemories_reached [OF assms(1-4)]
  by (auto simp: Let_def storeEvents_memories)


theorem failed_call_keeps_store_witness:
  "enabled sampleSettings \<and> chat (chatOf [aliceLine, bobLine]) \<noteq> []
   \<and> selectMessages sampleSettings [aliceLine, bobLine] None emptyVault \<noteq> []
   \<and> extractMemories sampleSettings (chatOf [aliceLine, bobLine]) failingWorld None emptyVault
       = (emptyVault, Inl (Error ''Failed to fetch''))
   \<and> snd (extractMemories sampleSettings (chatOf [aliceLine, bobLine]) unsavedWorld None emptyVault)
       = Inl (Error ''save failed'')
   \<and> length (memories
         (fst (extractMemories sampleSettings (chatOf [aliceLine, bobLine]) unsavedWorld None emptyVault)))
       = 1"
proof -
  let ?sel = "selectMessages sampleSettings [aliceLine, bobLine] None emptyVault"
  let ?events = "parseExtractionResult unsavedWorld ''[{}]'' ?sel"
  have en: "enabled sampleSettings" by (simp add: sampleSettings_def)
  have ch: "chat (chatOf [aliceLine, bobLine]) \<noteq> []" by (simp add: chatOf_def)
  have sel: "selectMessages sampleSettings (chat (chatOf [aliceLine, bobLine])) None emptyVault = ?sel"
    by (simp add: chatOf_def)
  have ne: "?sel \<noteq> []" using sample_cycles(8) by auto
  have failing:
    "extractMemories sampleSettings (chatOf [aliceLine, bobLine]) failingWorld None emptyVault
       = (emptyVault, Inl (Error ''Failed to fetch''))"
    using failed_call_keeps_store [OF en ch sel ne, of failingWorld "Error ''Failed to fetch''"]
      sample_cycles(5) by simp
  have ev: "?events \<noteq> []" using sample_cycles(7) by auto
  have sv: "saveResult unsavedWorld = Some (Error ''save failed'')"
    by (simp add: unsavedWorld_def busyWorld_def quietWorld_def)
  have unsaved:
    "extractMemories sampleSettings (chatOf [aliceLine, bobLine]) unsavedWorld None emptyVault
       = (storeEvents unsavedWorld ?sel ?events emptyVault, Inl (Error ''save failed''))
     \<and> memories (storeEvents unsavedWorld ?sel ?events emptyVault) = memories emptyVault @ ?events"
    using failed_call_keeps_store [OF en ch sel ne, of unsavedWorld "Error ''save failed''" "''[{}]''" ?events] sample_cycles(6) ev sv by simp
  show ?thesis
    using en ch ne failing unsaved sample_cycles(7) by (simp add: emptyVault_def)
qed

text \<open>
  The claim as written fails for an exception after the call: the save rejects, the
  error reaches the caller, and the store that was empty now holds one event, states for
  Alice and Bob, their relationship and the marker 1.
\<close>

theorem failed_save_leaves_partial_state:
  "snd (extractMemories sampleSettings (chatOf [aliceLine, bobLine]) unsavedWorld None emptyVault)
     = Inl (Error ''save failed'')
   \<and> memories emptyVault = []
   \<and> last_processed_message_id emptyVault = - 1
   \<and> length (memories
        (fst (extractMemories sampleSettings (chatOf [aliceLine, bobLine]) unsavedWorld None emptyVault)))
      = 1
   \<and> map_option current_emotion (character_states
        (fst (extractMemories sampleSettings (chatOf [aliceLine, bobLine]) unsavedWorld None emptyVault))
        ''Alice'') = Some ''hopeful''
   \<and> map_option trust_level (relationships
        (fst (extractMemories sampleSettings (chatOf [aliceLine, bobLine]) unsavedWorld None emptyVault))
        ''Alice<->Bob'') = Some 6
   \<and> last_processed_message_id
        (fst (extractMemories sampleSettings (chatOf [aliceLine, bobLine]) unsavedWorld None emptyVault))
      = 1"
  by code_simp

section \<open>Which messages a cycle takes\<close>

lemma explicit_selection:
  assumes "ids \<noteq> []"
  shows "map fst (selectMessages settings msgs (Some ids) data) = ids"
    and "\<forall>i \<in> set ids. i < length msgs \<longrightarrow> (i, msgs ! i) \<in> set (selectMessages settings msgs (Some ids) data)"
  using assms by (auto simp: selectMessages_def comp_def)

lemma automatic_selection:
  assumes "m \<in> set (selectMessages settings msgs None data)"
  shows "\<not> is_system (snd m)" "int (fst m) > orElse (last_processed_message_id data) (- 1)"
    "fst m < length msgs" "snd m = msgs ! fst m"
  using assms in_set_dropD [of m _ "filter (\<lambda>m. \<not> is_system (snd m) \<and> int (fst m) > orElse (last_processed_message_id data) (- 1)) (enumerate 0 msgs)"]
  by (auto simp: selectMessages_def selectUnprocessed_def Let_def in_set_enumerate_eq)

lemma automatic_selection_count:
  "length (selectMessages settings msgs None data) \<le> messageCount settings"
  by (simp add: selectMessages_def selectUnprocessed_def Let_def)


text \<open>
  Claim C10. With a list of ids the batch is that list, hidden messages included; without
  one the selection skips system messages and takes at most \<^verbatim>\<open>messagesPerExtraction\<close> of
  the rest (5 when the setting is 0). The marker is read through \<^verbatim>\<open>|| -1\<close>, so the marker
  0, which an extraction of the first message leaves, is read as -1: the first message,
  whose id is not greater than the marker, is selected again.
\<close>

theorem first_message_selected_again:
  "last_processed_message_id
      (fst (extractMemories sampleSettings (chatOf [aliceLine]) busyWorld None emptyVault)) = 0
   \<and> map fst (selectMessages sampleSettings [aliceLine, bobLine] None
        (fst (extractMemories sampleSettings (chatOf [aliceLine]) busyWorld None emptyVault)))
      = [0, 1]
   \<and> map fst (selectMessages sampleSettings [aliceLine, hiddenLine, bobLine] (Some [0, 1, 2]) emptyVault)
      = [0, 1, 2]"
  by code_simp

section \<open>Backfill\<close>

lemma messageCount_pos: "0 < messageCount settings"
  by (simp add: messageCount_def)

lemma backfillMessages_take:
  "backfillMessages settings ctx data
     = take (completeBatches settings ctx data * messageCount settings) (eligibleIds settings ctx data)"
  by (simp add: backfillMessages_def remainder_def completeMessageCount_def)

lemma completeBatches_fit:
  "completeBatches settings ctx data * messageCount settings \<le> length (eligibleIds settings ctx data)"
  by (simp add: completeBatches_def)

lemma length_backfillMessages:
  "length (backfillMessages settings ctx data) = completeBatches settings ctx data * messageCount settings"
  using completeBatches_fit [of settings ctx data] by (simp add: backfillMessages_take)

lemma completeBatches_largest:
  assumes "j * messageCount settings \<le> length (eligibleIds settings ctx data)"
  shows "j \<le> completeBatches settings ctx data"
  using assms messageCount_pos [of settings]
  by (simp add: completeBatches_def less_eq_div_iff_mult_less_eq)

lemma length_batchSlice:
  assumes "i < completeBatches settings ctx data"
  shows "length (batchSlice (messageCount settings) (backfillMessages settings ctx data) i)
         = messageCount settings"
proof -
  have "Suc i * messageCount settings \<le> completeBatches settings ctx data * messageCount settings"
    using assms by (intro mult_le_mono1) simp
  then show ?thesis
    by (simp add: batchSlice_def length_backfillMessages)
qed

lemma extractAllMessages_run:
  assumes "chat ctx \<noteq> []" "backfillMessages settings ctx data \<noteq> []"
  shows "extractAllMessages settings ctx worlds data =
     (case backfillLoop settings ctx worlds (backfillMessages settings ctx data)
             (completeBatches settings ctx data)
             [0..<completeBatches settings ctx data] (data, 0, []) of
        (d, totalEvents, lg) \<Rightarrow>
          (d, Some (totalEvents, length (backfillMessages settings ctx data)), lg))"
  using assms by (simp add: extractAllMessages_def Let_def)

lemma upt_3: "[0..<3] = [0, 1, 2]"
  by (simp add: upt_rec)

text \<open>
  Claim C5. The messages of a backfill run are the eligible ids cut to the largest
  multiple of the batch size that fits. With 23 ids never extracted from, batch size 5
  and the last 5 ids held back, 18 are eligible, 3 batches of 5 are processed (the
  first 15 ids, in order) and 3 ids are left for a later run.
\<close>

theorem backfill_of_23_turns:
  "backfillMessages settings ctx data
     = take (completeBatches settings ctx data * messageCount settings) (eligibleIds settings ctx data)
   \<and> completeBatches settings ctx data * messageCount settings \<le> length (eligibleIds settings ctx data)
   \<and> (\<forall>j. j * messageCount settings \<le> length (eligibleIds settings ctx data)
           \<longrightarrow> j \<le> completeBatches settings ctx data)
   \<and> (length (allMessageIds ctx data) = 23 \<and> messagesPerExtraction settings = 5 \<longrightarrow>
         length (eligibleIds settings ctx data) = 18
         \<and> completeBatches settings ctx data = 3
         \<and> remainder settings ctx data = 3
         \<and> backfillMessages settings ctx data = take 15 (allMessageIds ctx data)
         \<and> (\<forall>i < 3. length (batchSlice 5 (backfillMessages settings ctx data) i) = 5)
         \<and> extractAllMessages settings ctx worlds data =
             (case backfillLoop settings ctx worlds (take 15 (allMessageIds ctx data))
                     3 [0, 1, 2] (data, 0, []) of
                (d, totalEvents, lg) \<Rightarrow> (d, Some (totalEvents, 15), lg)))"
proof (intro conjI impI allI)
  show "backfillMessages settings ctx data
     = take (completeBatches settings ctx data * messageCount settings) (eligibleIds settings ctx data)"
    by (rule backfillMessages_take)
  show "completeBatches settings ctx data * messageCount settings \<le> length (eligibleIds settings ctx data)"
    by (rule completeBatches_fit)
  show "j \<le> completeBatches settings ctx data"
    if "j * messageCount settings \<le> length (eligibleIds settings ctx data)" for j
    using that by (rule completeBatches_largest)
next
  assume h: "length (allMessageIds ctx data) = 23 \<and> messagesPerExtraction settings = 5"
  then have mc: "messageCount settings = 5" by (simp add: messageCount_def)
  show el: "length (eligibleIds settings ctx data) = 18"
    using h mc by (simp add: eligibleIds_def)
  show cb: "completeBatches settings ctx data = 3"
    using el mc by (simp add: completeBatches_def)
  show "remainder settings ctx data = 3"
    using el mc cb by (simp add: remainder_def completeMessageCount_def)
  show bm: "backfillMessages settings ctx data = take 15 (allMessageIds ctx data)"
    using h mc cb by (simp add: backfillMessages_take eligibleIds_def)
  show "length (batchSlice 5 (backfillMessages settings ctx data) i) = 5" if "i < 3" for i
    using length_batchSlice [of i settings ctx data] that cb mc by simp
  have "chat ctx \<noteq> []" using h by (auto simp: allMessageIds_def)
  moreover have "backfillMessages settings ctx data \<noteq> []"
    using length_backfillMessages [of settings ctx data] cb mc by auto
  ultimately show "extractAllMessages settings ctx worlds data =
             (case backfillLoop settings ctx worlds (take 15 (allMessageIds ctx data))
                     3 [0, 1, 2] (data, 0, []) of
                (d, totalEvents, lg) \<Rightarrow> (d, Some (totalEvents, 15), lg))"
    using extractAllMessages_run [of ctx settings data worlds] length_backfillMessages [of settings ctx data]
      cb mc bm upt_3 by simp
qed


lemma sample_backfill:
  "length (allMessageIds (chatOf (replicate 23 aliceLine)) emptyVault) = 23"
  "messagesPerExtraction sampleSettings = 5"
  "allMessageIds (chatOf (replicate 23 aliceLine)) emptyVault
     = [0, 1, 2, 3, 4, 5, 6, 7, 8, 9, 10, 11, 12, 13, 14, 15, 16, 17, 18, 19, 20, 21, 22]"
  by code_simp+

theorem backfill_of_23_turns_witness:
  "length (allMessageIds (chatOf (replicate 23 aliceLine)) emptyVault) = 23
   \<and> messagesPerExtraction sampleSettings = 5
   \<and> length (eligibleIds sampleSettings (chatOf (replicate 23 aliceLine)) emptyVault) = 18
   \<and> completeBatches sampleSettings (chatOf (replicate 23 aliceLine)) emptyVault = 3
   \<and> remainder sampleSettings (chatOf (replicate 23 aliceLine)) emptyVault = 3
   \<and> backfillMessages sampleSettings (chatOf (replicate 23 aliceLine)) emptyVault
       = [0, 1, 2, 3, 4, 5, 6, 7, 8, 9, 10, 11, 12, 13, 14]"
proof -
  let ?ctx = "chatOf (replicate 23 aliceLine)"
  have "length (eligibleIds sampleSettings ?ctx emptyVault) = 18
     \<and> completeBatches sampleSettings ?ctx emptyVault = 3
     \<and> remainder sampleSettings ?ctx emptyVault = 3
     \<and> backfillMessages sampleSettings ?ctx emptyVault = take 15 (allMessageIds ?ctx emptyVault)"
    using backfill_of_23_turns [of sampleSettings ?ctx emptyVault "\<lambda>i. busyWorld"]
      sample_backfill(1,2) by blast
  then show ?thesis
    using sample_backfill(1,2) by (simp add: sample_backfill(3))
qed

lemma explicit_selection_any_store:
  assumes "ids \<noteq> []"
  shows "selectMessages settings msgs (Some ids) d = selectMessages settings msgs (Some ids) d'"
  using assms by (simp add: selectMessages_def)

lemma extractMemories_result_any_store:
  assumes "ids \<noteq> []"
  shows "snd (extractMemories settings ctx w (Some ids) d) = snd (extractMemories settings ctx w (Some ids) d')"
  using explicit_selection_any_store [OF assms, of settings "chat ctx" d d']
  by (auto simp: extractMemories_def Let_def split: sum.splits option.splits)

lemma storeEvents_batches:
  "extracted_batches (storeEvents w sel events data) = extracted_batches data"
  by (simp add: storeEvents_def Let_def updateCharacterStatesFromEvents_def
      updateRelationshipsFromEvents_def)

lemma extractMemories_batches:
  "extracted_batches (fst (extractMemories settings ctx w messageIds data)) = extracted_batches data"
  by (auto simp: extractMemories_def Let_def storeEvents_batches split: sum.splits option.splits)

text \<open>How batch \<open>i\<close> of \<open>k\<close> shows in the log when the store holds the list of batches.\<close>

lemma backfillLoop_effect:
  assumes "\<forall>i \<in> set idxs. batchSlice (messageCount settings) mte i \<noteq> []"
    and "\<And>i. R i = snd (extractMemories settings ctx (worlds i)
                   (Some (batchSlice (messageCount settings) mte i)) d0)"
    and "extracted_batches d = Some recorded"
  shows "\<exists>d' recorded'.
           backfillLoop settings ctx worlds mte k idxs (d, t, lg)
             = (d', t + sum_list (map (\<lambda>i. eventsReported (R i)) idxs),
                lg @ concat (map (\<lambda>i. Processing i #
                      (if isl (R i) then [BatchError i]
                       else if i + 1 < k then [RateLimitWait (delayMs settings)] else [])) idxs))
           \<and> extracted_batches d' = Some recorded'
           \<and> set recorded' = set recorded \<union> {i \<in> set idxs. \<not> isl (R i)}"
  using assms(1,3)
proof (induction idxs arbitrary: d t lg recorded)
  case Nil
  then show ?case by simp
next
  case (Cons i rest)
  let ?batch = "batchSlice (messageCount settings) mte i"
  let ?run = "extractMemories settings ctx (worlds i) (Some ?batch) d"
  have ne: "?batch \<noteq> []" using Cons.prems by simp
  have "snd ?run = snd (extractMemories settings ctx (worlds i) (Some ?batch) d0)"
    using ne by (rule extractMemories_result_any_store)
  then have res: "snd ?run = R i" by (simp add: assms(2))
  have eb: "extracted_batches (fst ?run) = extracted_batches d"
    by (rule extractMemories_batches)
  have rest: "\<forall>i \<in> set rest. batchSlice (messageCount settings) mte i \<noteq> []"
    using Cons.prems by simp
  obtain d1 where run: "?run = (d1, R i)" using res by (cases ?run) auto
  have eb1: "extracted_batches d1 = Some recorded" using eb run Cons.prems(2) by simp
  show ?case
  proof (cases "R i")
    case (Inl e)
    have step: "backfillLoop settings ctx worlds mte k (i # rest) (d, t, lg)
        = backfillLoop settings ctx worlds mte k rest (d1, t, lg @ [Processing i, BatchError i])"
      using run Inl by simp
    have ev: "eventsReported (R i) = 0" "isl (R i)" using Inl by (simp_all add: eventsReported_def)
    from Cons.IH [OF rest eb1, of t "lg @ [Processing i, BatchError i]"]
    show ?thesis unfolding step using ev by auto
  next
    case (Inr result)
    define d2 where "d2 = (if i \<in> set recorded then d1
               else d1\<lparr>extracted_batches := Some (recorded @ [i])\<rparr>)"
    define recorded2 where "recorded2 = (if i \<in> set recorded then recorded else recorded @ [i])"
    define lg2 where "lg2 = (if i + 1 < k then lg @ [Processing i, RateLimitWait (delayMs settings)]
               else lg @ [Processing i])"
    have step: "backfillLoop settings ctx worlds mte k (i # rest) (d, t, lg)
        = backfillLoop settings ctx worlds mte k rest (d2, t + eventsReported (R i), lg2)"
      using run Inr eb1
      by (simp add: d2_def lg2_def eventsReported_def Let_def split: option.splits)
    have eb2: "extracted_batches d2 = Some recorded2"
      using eb1 by (simp add: d2_def recorded2_def)
    have set2: "set recorded2 = insert i (set recorded)"
      by (auto simp: recorded2_def)
    have ev: "\<not> isl (R i)" using Inr by simp
    from Cons.IH [OF rest eb2, of "t + eventsReported (R i)" lg2]
    show ?thesis unfolding step using ev set2 by (auto simp: lg2_def)
  qed
qed

text \<open>The same loop on a store without the list of batches.\<close>

lemma backfillLoop_without_list:
  assumes "\<forall>i \<in> set idxs. batchSlice (messageCount settings) mte i \<noteq> []"
    and "\<And>i. R i = snd (extractMemories settings ctx (worlds i)
                   (Some (batchSlice (messageCount settings) mte i)) d0)"
    and "extracted_batches d = None"
  shows "\<exists>d'.
           backfillLoop settings ctx worlds mte k idxs (d, t, lg)
             = (d', t + sum_list (map (\<lambda>i. eventsReported (R i)) idxs),
                lg @ concat (map (\<lambda>i. [Processing i, BatchError i]) idxs))
           \<and> extracted_batches d' = None"
  using assms(1,3)
proof (induction idxs arbitrary: d t lg)
  case Nil
  then show ?case by simp
next
  case (Cons i rest)
  let ?batch = "batchSlice (messageCount settings) mte i"
  let ?run = "extractMemories settings ctx (worlds i) (Some ?batch) d"
  have ne: "?batch \<noteq> []" using Cons.prems by simp
  have "snd ?run = snd (extractMemories settings ctx (worlds i) (Some ?batch) d0)"
    using ne by (rule extractMemories_result_any_store)
  then have res: "snd ?run = R i" by (simp add: assms(2))
  have eb: "extracted_batches (fst ?run) = extracted_batches d"
    by (rule extractMemories_batches)
  have rest: "\<forall>i \<in> set rest. batchSlice (messageCount settings) mte i \<noteq> []"
    using Cons.prems by simp
  obtain d1 where run: "?run = (d1, R i)" using res by (cases ?run) auto
  have eb1: "extracted_batches d1 = None" using eb run Cons.prems(2) by simp
  have step: "backfillLoop settings ctx worlds mte k (i # rest) (d, t, lg)
      = backfillLoop settings ctx worlds mte k rest
          (d1, t + eventsReported (R i), lg @ [Processing i, BatchError i])"
    using run eb1 by (cases "R i") (simp_all add: eventsReported_def Let_def split: option.splits)
  from Cons.IH [OF rest eb1, of "t + eventsReported (R i)" "lg @ [Processing i, BatchError i]"]
  show ?case unfolding step by auto
qed

text \<open>
  On a store that holds the list of batches the run does what the claim says. Every
  batch is announced once, in order; a batch whose extraction throws is followed by the
  error line and the next batch, without a second attempt; the recorded indices are the
  ones recorded before together with the index of every batch whose extraction did not
  throw; the reported number of events is the sum over the batches that did not throw.
\<close>

lemma backfill_with_batch_list:
  assumes "extractAllMessages settings ctx worlds data = (d', Some (totalEvents, n), lg)"
    and "extracted_batches data = Some recorded"
  shows "(\<exists>recorded'. extracted_batches d' = Some recorded'
            \<and> set recorded' = set recorded
                 \<union> {i. i < completeBatches settings ctx data
                        \<and> \<not> isl (batchResult settings ctx worlds data i)})
       \<and> totalEvents = (\<Sum>i < completeBatches settings ctx data.
                           eventsReported (batchResult settings ctx worlds data i))
       \<and> n = completeBatches settings ctx data * messageCount settings
       \<and> lg = concat (map (\<lambda>i. Processing i #
                 (if isl (batchResult settings ctx worlds data i) then [BatchError i]
                  else if i + 1 < completeBatches settings ctx data
                       then [RateLimitWait (delayMs settings)] else []))
               [0..<completeBatches settings ctx data])"
proof -
  let ?mte = "backfillMessages settings ctx data"
  let ?k = "completeBatches settings ctx data"
  let ?R = "batchResult settings ctx worlds data"
  let ?entries = "\<lambda>i. Processing i #
                 (if isl (?R i) then [BatchError i]
                  else if i + 1 < ?k then [RateLimitWait (delayMs settings)] else [])"
  have ne: "chat ctx \<noteq> []" "?mte \<noteq> []"
    using assms(1) by (auto simp: extractAllMessages_def Let_def split: if_splits)
  obtain d1 t1 lg1 where
    run: "backfillLoop settings ctx worlds ?mte ?k [0..<?k] (data, 0, []) = (d1, t1, lg1)"
    by (cases "backfillLoop settings ctx worlds ?mte ?k [0..<?k] (data, 0, [])") auto
  have "(d1, Some (t1, length ?mte), lg1) = (d', Some (totalEvents, n), lg)"
    using assms(1) unfolding extractAllMessages_run [OF ne] run by simp
  then have same: "d1 = d'" "t1 = totalEvents" "lg1 = lg" and n: "n = length ?mte"
    by simp_all
  have batches: "\<forall>i \<in> set [0..<?k]. batchSlice (messageCount settings) ?mte i \<noteq> []"
    using length_batchSlice [of _ settings ctx data] messageCount_pos [of settings] by fastforce
  have R: "\<And>i. ?R i = snd (extractMemories settings ctx (worlds i)
                   (Some (batchSlice (messageCount settings) ?mte i)) data)"
    by (simp add: batchResult_def)
  from backfillLoop_effect [OF batches R assms(2), of ?k 0 "[]"]
  obtain d2 recorded' where
    eq: "backfillLoop settings ctx worlds ?mte ?k [0..<?k] (data, 0, [])
           = (d2, 0 + sum_list (map (\<lambda>i. eventsReported (?R i)) [0..<?k]),
              [] @ concat (map ?entries [0..<?k]))"
    and eb: "extracted_batches d2 = Some recorded'"
    and st: "set recorded' = set recorded \<union> {i \<in> set [0..<?k]. \<not> isl (?R i)}"
    by blast
  have d2: "d2 = d'"
    and total: "totalEvents = sum_list (map (\<lambda>i. eventsReported (?R i)) [0..<?k])"
    and log: "lg = concat (map ?entries [0..<?k])"
    using eq run same by simp_all
  have sum: "sum_list (map (\<lambda>i. eventsReported (?R i)) [0..<?k]) = (\<Sum>i < ?k. eventsReported (?R i))"
    by (simp add: interv_sum_list_conv_sum_set_nat atLeast0LessThan)
  have rec: "extracted_batches d' = Some recorded'
       \<and> set recorded' = set recorded \<union> {i. i < ?k \<and> \<not> isl (?R i)}"
    using eb st d2 by auto
  have cnt: "n = ?k * messageCount settings"
    using n length_backfillMessages [of settings ctx data] by simp
  show ?thesis
    using rec total sum cnt log by blast
qed

lemma sample_with_batch_list:
  "extractAllMessages sampleSettings (chatOf (replicate 20 aliceLine)) secondBatchFails batchVault
     = (fst (extractAllMessages sampleSettings (chatOf (replicate 20 aliceLine)) secondBatchFails
               batchVault),
        Some (2, 15),
        [Processing 0, RateLimitWait 2000, Processing 1, BatchError 1, Processing 2])"
  "extracted_batches (fst (extractAllMessages sampleSettings (chatOf (replicate 20 aliceLine))
      secondBatchFails batchVault)) = Some [0, 2]"
proof -
  let ?run = "extractAllMessages sampleSettings (chatOf (replicate 20 aliceLine)) secondBatchFails
               batchVault"
  have "snd ?run
      = (Some (2, 15), [Processing 0, RateLimitWait 2000, Processing 1, BatchError 1, Processing 2])"
    by code_simp
  then show "?run = (fst ?run, Some (2, 15),
        [Processing 0, RateLimitWait 2000, Processing 1, BatchError 1, Processing 2])"
    by (metis prod.collapse)
  show "extracted_batches (fst ?run) = Some [0, 2]"
    by code_simp
qed


end
